theory Spec2Isabelle
  imports Complex_Main "HOL-Library.Multiset"
begin

section \<open>Principal component analysis wrapper: the class \<open>AnalyseACP\<close>\<close>

text \<open>
  The development embeds \<^verbatim>\<open>src/python/pca_analysis.py\<close>. The class \<^verbatim>\<open>AnalyseACP\<close> wraps
  \<^verbatim>\<open>sklearn.decomposition.PCA\<close>: the decomposition itself is computed by that library, the
  class reads its fitted attributes and derives tables from them with numpy and pandas.

  Conventions of the embedding.
  \<^item> A Python \<^verbatim>\<open>float\<close> is a \<open>real\<close>. Two places go further: a cell of a matrix handed to
    \<^verbatim>\<open>ajuster\<close> may be NaN or infinite (type \<open>float64\<close>), and rounding to double precision is
    modelled (\<open>fl\<close>) where a result turns on the last bit.
  \<^item> The decomposition itself is computed by the library. Its numeric core is a parameter
    of the embedding; what the library checks before and fixes after that core is modelled
    (\<open>PCA_fit\<close>).
  \<^item> A raised exception is the \<open>Inl\<close> branch of a sum; \<open>py_error\<close> names the exception class.
  \<^item> \<^verbatim>\<open>print\<close> calls and the write-only bookkeeping dictionary \<^verbatim>\<open>self.resultats\<close> (assigned
    in several methods, read by none) are left out.
  \<^item> A numpy matrix is the list of its rows; a pandas Series is the list of its
    (index label, value) pairs; a Python dict is an association list in insertion order.
\<close>

subsection \<open>Data\<close>

datatype py_error = AttributeError | ValueError | IndexError | KeyError | OtherError string

text \<open>
  A row or column label of a DataFrame: a string, or an integer position (what pandas uses
  when no labels are given).
\<close>

datatype label = Str string | Num int

text \<open>
  The fitted attributes of \<^verbatim>\<open>sklearn.decomposition.PCA\<close> that the class reads (the
  library writes each name with a trailing underscore, which an Isabelle name cannot end in).
  \<open>components\<close> has shape \<open>(K, N)\<close>: one row per component, one column per variable;
  \<open>explained_variance\<close> and \<open>explained_variance_ratio\<close> have shape \<open>(K,)\<close>.
  \<open>n_features_in\<close> is \<open>N\<close> (a numpy array knows its column count even with no row).
\<close>

record PCA =
  n_features_in :: nat
  components :: "real list list"
  explained_variance :: "real list"
  explained_variance_ratio :: "real list"

text \<open>
  \<^verbatim>\<open>self.pca\<close> is \<^verbatim>\<open>None\<close> after \<^verbatim>\<open>__init__\<close>, an estimator without fitted attributes between
  \<^verbatim>\<open>PCA(...)\<close> and the end of \<^verbatim>\<open>fit\<close>, and a fitted estimator afterwards.
\<close>

datatype estimator = Unfitted | Fitted PCA

record AnalyseACP =
  n_composantes :: "int option"
  pca :: "estimator option"
  noms_variables :: "label list option"


record 'a DataFrame =
  index :: "label list"
  columns :: "label list"
  vals :: "'a list list"

text \<open>A pandas Series: index labels with their values, in row order.\<close>

type_synonym series = "(label \<times> real) list"


text \<open>
  Reading a fitted attribute through \<^verbatim>\<open>self.pca.<attr>_\<close>: on \<^verbatim>\<open>None\<close> and on an estimator that
  was never fitted the attribute does not exist.
\<close>

definition fitted_attrs :: "AnalyseACP \<Rightarrow> py_error + PCA" where
  "fitted_attrs self =
     (case pca self of
        None \<Rightarrow> Inl AttributeError
      | Some Unfitted \<Rightarrow> Inl AttributeError
      | Some (Fitted p) \<Rightarrow> Inr p)"

text \<open>
  The shape invariant of a fitted estimator, and of an object on which \<^verbatim>\<open>ajuster\<close> succeeded:
  \<open>K\<close> components over \<open>N\<close> variables, \<open>N\<close> variable names. The library computes each
  eigenvalue as a squared singular value over \<open>n - 1\<close>, so none is negative.
\<close>

definition wf_pca :: "PCA \<Rightarrow> bool" where
  "wf_pca p \<longleftrightarrow>
     list_all (\<lambda>row. length row = n_features_in p) (components p) \<and>
     length (explained_variance p) = length (components p) \<and>
     length (explained_variance_ratio p) = length (components p) \<and>
     list_all (\<lambda>x. 0 \<le> x) (explained_variance p)"

definition wf_acp :: "AnalyseACP \<Rightarrow> PCA \<Rightarrow> bool" where
  "wf_acp self p \<longleftrightarrow>
     pca self = Some (Fitted p) \<and> wf_pca p \<and>
     (case noms_variables self of
        None \<Rightarrow> False
      | Some names \<Rightarrow> length names = n_features_in p)"

subsection \<open>numpy helpers\<close>

text \<open>\<^verbatim>\<open>np.sum\<close> of a boolean array counts the \<^verbatim>\<open>True\<close> entries.\<close>

definition np_sum_bool :: "bool list \<Rightarrow> int" where
  "np_sum_bool bs = sum_list (map (\<lambda>b. if b then 1 else 0) bs)"

text \<open>
  \<^verbatim>\<open>np.cumsum\<close>: the running total, left to right; the first entry is the first element
  itself. The addition of two floats is the parameter \<open>add\<close>: it is \<open>(+)\<close> where floats are read
  as reals, and the rounded addition \<open>dadd\<close> below for double precision.
\<close>

fun cumsum_from :: "(real \<Rightarrow> real \<Rightarrow> real) \<Rightarrow> real \<Rightarrow> real list \<Rightarrow> real list" where
  "cumsum_from add acc [] = []"
| "cumsum_from add acc (x # xs) = add acc x # cumsum_from add (add acc x) xs"

definition np_cumsum :: "(real \<Rightarrow> real \<Rightarrow> real) \<Rightarrow> real list \<Rightarrow> real list" where
  "np_cumsum add xs = (case xs of [] \<Rightarrow> [] | x # rest \<Rightarrow> x # cumsum_from add x rest)"

text \<open>
  Double precision, for the places where a result turns on the last bit. A double is read as
  the real number it denotes. \<open>fl x\<close> is the double nearest to \<open>x\<close>: 53 significant bits,
  ties to the even significand (overflow and subnormal numbers are left out: no value below
  comes near them). \<open>binade x\<close> is the exponent \<open>e\<close> with \<open>2 ^ e \<le> \<bar>x\<bar> < 2 ^ (e + 1)\<close>. The sum
  and the quotient of two doubles are the exact results rounded.
\<close>

definition round_half_even :: "real \<Rightarrow> int" where
  "round_half_even x =
     (let f = \<lfloor>x\<rfloor>; d = x - of_int f
      in if d < 1/2 then f else if 1/2 < d then f + 1 else if even f then f else f + 1)"

definition binade :: "real \<Rightarrow> int" where
  "binade x = \<lfloor>log 2 \<bar>x\<bar>\<rfloor>"

definition fl :: "real \<Rightarrow> real" where
  "fl x = (if x = 0 then 0
           else of_int (round_half_even (x * 2 powi (52 - binade x))) * 2 powi (binade x - 52))"

definition dadd :: "real \<Rightarrow> real \<Rightarrow> real" where
  "dadd a b = fl (a + b)"

definition ddiv :: "real \<Rightarrow> real \<Rightarrow> real" where
  "ddiv a b = fl (a / b)"

text \<open>\<^verbatim>\<open>np.round(x, d)\<close>: \<open>x\<close> scaled by \<open>10 ^ d\<close>, rounded to the nearest integer (ties to even).\<close>

definition np_round :: "nat \<Rightarrow> real \<Rightarrow> real" where
  "np_round d x = of_int (round_half_even (x * 10 ^ d)) / 10 ^ d"

text \<open>
  \<^verbatim>\<open>np.argmax\<close>: the index of the first occurrence of the maximum; an empty array raises
  \<^verbatim>\<open>ValueError\<close>. On booleans \<open>False < True\<close>.
\<close>

fun first_index :: "'a \<Rightarrow> 'a list \<Rightarrow> nat" where
  "first_index a [] = 0"
| "first_index a (x # xs) = (if x = a then 0 else Suc (first_index a xs))"

definition np_argmax :: "'a::linorder list \<Rightarrow> py_error + nat" where
  "np_argmax xs =
     (case xs of
        [] \<Rightarrow> Inl ValueError
      | x # rest \<Rightarrow> Inr (first_index (fold max rest x) xs))"

subsection \<open>Retention criteria\<close>

text \<open>
  \<^verbatim>\<open>critere_kaiser\<close>: \<^verbatim>\<open>int(np.sum(self.pca.explained_variance_ > 1))\<close>.
\<close>

definition critere_kaiser :: "AnalyseACP \<Rightarrow> py_error + int" where
  "critere_kaiser self =
     (case fitted_attrs self of
        Inl e \<Rightarrow> Inl e
      | Inr p \<Rightarrow> Inr (np_sum_bool (map (\<lambda>x. 1 < x) (explained_variance p))))"

text \<open>
  \<^verbatim>\<open>seuil_variance\<close>:
  \<^verbatim>\<open>cumul = np.cumsum(self.pca.explained_variance_ratio_)\<close>,
  \<^verbatim>\<open>n = int(np.argmax(cumul >= seuil)) + 1\<close>.
  The addition that \<^verbatim>\<open>np.cumsum\<close> uses is the parameter \<open>add\<close>; comparing two doubles is exact.
\<close>

definition seuil_variance ::
  "(real \<Rightarrow> real \<Rightarrow> real) \<Rightarrow> AnalyseACP \<Rightarrow> real \<Rightarrow> py_error + int" where
  "seuil_variance add self seuil =
     (case fitted_attrs self of
        Inl e \<Rightarrow> Inl e
      | Inr p \<Rightarrow>
          (let cumul = np_cumsum add (explained_variance_ratio p) in
           case np_argmax (map (\<lambda>c. seuil \<le> c) cumul) of
             Inl e \<Rightarrow> Inl e
           | Inr a \<Rightarrow> Inr (int a + 1)))"

subsection \<open>Fitting\<close>


subsection \<open>The library call \<^verbatim>\<open>PCA.fit\<close>\<close>









subsection \<open>Loadings\<close>

text \<open>The decimal rendering of a natural number, as an f-string prints an \<^verbatim>\<open>int\<close>.\<close>

definition digit_char :: "nat \<Rightarrow> char" where
  "digit_char d = ''0123456789'' ! d"

fun str_nat :: "nat \<Rightarrow> string" where
  "str_nat n = (if n < 10 then [digit_char n] else str_nat (n div 10) @ [digit_char (n mod 10)])"

declare str_nat.simps [simp del]

text \<open>The column label \<^verbatim>\<open>f"CP{i+1}"\<close>.\<close>

definition cp_label :: "nat \<Rightarrow> label" where
  "cp_label i = Str (''CP'' @ str_nat (i + 1))"

text \<open>
  \<^verbatim>\<open>M.T\<close> for a matrix \<open>M\<close> with \<open>n\<close> columns, and \<^verbatim>\<open>A * v\<close> for a matrix whose rows are as
  long as the vector \<open>v\<close>: numpy multiplies every row by \<open>v\<close> entry by entry.
\<close>

definition T :: "nat \<Rightarrow> real list list \<Rightarrow> real list list" where
  "T n M = map (\<lambda>j. map (\<lambda>row. row ! j) M) [0..<n]"

definition mul_rows :: "real list list \<Rightarrow> real list \<Rightarrow> real list list" where
  "mul_rows A v = map (\<lambda>row. map (\<lambda>(a, b). a * b) (zip row v)) A"

text \<open>
  \<^verbatim>\<open>pd.DataFrame(data, index=..., columns=...)\<close>: an index of the wrong length raises
  \<^verbatim>\<open>ValueError\<close>; without an index the rows are numbered.
\<close>

definition new_DataFrame ::
  "real list list \<Rightarrow> label list option \<Rightarrow> label list \<Rightarrow> py_error + real DataFrame" where
  "new_DataFrame data idx cols =
     (case idx of
        None \<Rightarrow>
          Inr \<lparr>index = map (\<lambda>i. Num (int i)) [0..<length data], columns = cols, vals = data\<rparr>
      | Some names \<Rightarrow>
          if length names = length data
          then Inr \<lparr>index = names, columns = cols, vals = data\<rparr>
          else Inl ValueError)"

text \<open>
  \<^verbatim>\<open>loadings\<close>:
  \<^verbatim>\<open>L = self.pca.components_.T * np.sqrt(self.pca.explained_variance_)\<close>,
  \<^verbatim>\<open>cols = [f"CP{i+1}" for i in range(L.shape[1])]\<close>,
  \<^verbatim>\<open>pd.DataFrame(L, index=self.noms_variables, columns=cols)\<close>.
\<close>

definition loadings :: "AnalyseACP \<Rightarrow> py_error + real DataFrame" where
  "loadings self =
     (case fitted_attrs self of
        Inl e \<Rightarrow> Inl e
      | Inr p \<Rightarrow>
          (let L = mul_rows (T (n_features_in p) (components p))
                     (map sqrt (explained_variance p));
               cols = map cp_label [0..<length (components p)]
           in new_DataFrame L (noms_variables self) cols))"

text \<open>
  The matrix of the loadings table written out entry by entry: row \<open>j\<close>, column \<open>k\<close> holds
  \<open>components ! k ! j * sqrt (explained_variance ! k)\<close>. It is what \<open>loadings\<close> computes on
  a well-formed object (lemma \<open>loadings_wf\<close>).
\<close>

definition loading_matrix :: "PCA \<Rightarrow> real list list" where
  "loading_matrix p =
     map (\<lambda>j. map (\<lambda>k. components p ! k ! j * sqrt (explained_variance p ! k))
                 [0..<length (components p)])
         [0..<n_features_in p]"

subsection \<open>Communalities\<close>

text \<open>
  The table that \<^verbatim>\<open>communalites\<close> returns: a column of variable names and a column of numbers.
\<close>

record communalites_df =
  Variable :: "label option list"
  Communalite :: "real list"

text \<open>
  \<^verbatim>\<open>communalites\<close>:
  \<^verbatim>\<open>L = self.loadings()\<close>,
  \<^verbatim>\<open>h2 = (L ** 2).sum(axis=1)\<close>, and the table
  \<^verbatim>\<open>pd.DataFrame({"Variable": self.noms_variables, "Communalite": np.round(h2.values, 4)})\<close>.
  The method takes no retention count: the sum runs over all the columns of the loadings
  table. pandas broadcasts \<^verbatim>\<open>None\<close> over the rows and raises \<^verbatim>\<open>ValueError\<close> when the two columns
  differ in length.
\<close>

definition communalites :: "AnalyseACP \<Rightarrow> py_error + communalites_df" where
  "communalites self =
     (case loadings self of
        Inl e \<Rightarrow> Inl e
      | Inr L \<Rightarrow>
          (let h2 = map (\<lambda>row. \<Sum>x\<leftarrow>row. x ^ 2) (vals L) in
           case noms_variables self of
             None \<Rightarrow>
               Inr \<lparr>Variable = map (\<lambda>h. None) h2, Communalite = map (np_round 4) h2\<rparr>
           | Some names \<Rightarrow>
               if length names = length h2
               then Inr \<lparr>Variable = map Some names, Communalite = map (np_round 4) h2\<rparr>
               else Inl ValueError))"

subsection \<open>Projection\<close>

text \<open>
  Modelled from the spec: the projection of section 4.2, ``matrix multiplied by the
  components basis (as columns)'', which fails when the column count differs from the
  fitted variable count. In the source this is the library call \<^verbatim>\<open>self.pca.transform(X)\<close>,
  which is not part of the repository (the library raises \<^verbatim>\<open>ValueError\<close> for the mismatch,
  and subtracts the column means of the fitting matrix first, which are 0 for a
  standardized matrix and change no variance in any case).
\<close>

definition transform :: "PCA \<Rightarrow> real DataFrame \<Rightarrow> py_error + real list list" where
  "transform p X =
     (if length (columns X) = n_features_in p
      then Inr (map (\<lambda>row. map (\<lambda>v. \<Sum>a\<leftarrow>[0..<n_features_in p]. row ! a * v ! a)
                              (components p)) (vals X))
      else Inl ValueError)"

text \<open>
  \<^verbatim>\<open>transformer\<close>:
  \<^verbatim>\<open>scores = self.pca.transform(X)\<close>,
  \<^verbatim>\<open>cols = [f"CP{i+1}" for i in range(scores.shape[1])]\<close>,
  \<^verbatim>\<open>pd.DataFrame(scores, columns=cols)\<close>.
\<close>

definition transformer :: "AnalyseACP \<Rightarrow> real DataFrame \<Rightarrow> py_error + real DataFrame" where
  "transformer self X =
     (case fitted_attrs self of
        Inl e \<Rightarrow> Inl e
      | Inr p \<Rightarrow>
          (case transform p X of
             Inl e \<Rightarrow> Inl e
           | Inr scores \<Rightarrow>
               new_DataFrame scores None (map cp_label [0..<length (components p)])))"

text \<open>The sample variance of a column (divisor \<open>n - 1\<close>), \<^verbatim>\<open>var(ddof=1)\<close>.\<close>

definition sample_variance :: "real list \<Rightarrow> real" where
  "sample_variance xs =
     (\<Sum>x\<leftarrow>xs. (x - sum_list xs / real (length xs)) ^ 2) / real (length xs - 1)"

subsection \<open>Interpretation\<close>

text \<open>
  \<^verbatim>\<open>L[cp]\<close>: the column labelled \<open>cp\<close> as a Series, \<^verbatim>\<open>KeyError\<close> for an unknown label. (The
  labels \<open>CP1, CP2, ...\<close> of a loadings table are pairwise distinct, so the label names one
  column.)
\<close>

definition getitem_col :: "real DataFrame \<Rightarrow> label \<Rightarrow> py_error + series" where
  "getitem_col df c =
     (if c \<in> set (columns df)
      then Inr (zip (index df) (map (\<lambda>row. row ! first_index c (columns df)) (vals df)))
      else Inl KeyError)"

text \<open>\<^verbatim>\<open>Series.abs()\<close>.\<close>

definition series_abs :: "series \<Rightarrow> series" where
  "series_abs s = map (\<lambda>(l, v). (l, \<bar>v\<bar>)) s"

text \<open>
  \<^verbatim>\<open>Series.head(n)\<close> is the slice \<^verbatim>\<open>[:n]\<close>: the first \<open>n\<close> rows, or all but the last \<open>-n\<close> rows
  when \<open>n\<close> is negative.
\<close>

definition head :: "int \<Rightarrow> 'a list \<Rightarrow> 'a list" where
  "head n xs = (if 0 \<le> n then take (nat n) xs else take (length xs - nat (- n)) xs)"

text \<open>
  \<^verbatim>\<open>L.loc[labels, cp]\<close>: for each requested label in turn, every row of column \<open>cp\<close> carrying
  that label; a label absent from the index raises \<^verbatim>\<open>KeyError\<close>.
\<close>

definition loc_col :: "real DataFrame \<Rightarrow> label list \<Rightarrow> label \<Rightarrow> py_error + series" where
  "loc_col df labels c =
     (case getitem_col df c of
        Inl e \<Rightarrow> Inl e
      | Inr s \<Rightarrow>
          if set labels \<subseteq> set (index df)
          then Inr (concat (map (\<lambda>l. filter (\<lambda>(l', v). l' = l) s) labels))
          else Inl KeyError)"

text \<open>
  A dict in insertion order. \<^verbatim>\<open>d[k] = v\<close> overwrites the value of a key already present, in
  place, and appends a new key; \<^verbatim>\<open>Series.to_dict()\<close> inserts the rows one after the other.
\<close>

fun dict_set :: "'k \<Rightarrow> 'v \<Rightarrow> ('k \<times> 'v) list \<Rightarrow> ('k \<times> 'v) list" where
  "dict_set k v [] = [(k, v)]"
| "dict_set k v ((k', v') # d) = (if k' = k then (k, v) # d else (k', v') # dict_set k v d)"

definition to_dict :: "('k \<times> 'v) list \<Rightarrow> ('k \<times> 'v) list" where
  "to_dict s = fold (\<lambda>(k, v) d. dict_set k v d) s []"

text \<open>
  \<^verbatim>\<open>Series.sort_values(ascending=False)\<close> is called without \<^verbatim>\<open>kind\<close>, so pandas sorts with its
  default, \<^verbatim>\<open>kind='quicksort'\<close>. pandas documents the result as the rows in descending order
  of value and names \<^verbatim>\<open>'mergesort'\<close> and \<^verbatim>\<open>'stable'\<close> as the only stable kinds: what the
  default does with equal values is left to numpy's sort. The sort is therefore a parameter
  \<open>sort_values\<close> of the embedding, and \<open>sorts_descending\<close> is what pandas promises of it.
  \<open>sort_stable\<close> is the additional property of the stable kinds: rows of equal value keep their
  relative order.
\<close>

definition sorts_descending :: "(series \<Rightarrow> series) \<Rightarrow> bool" where
  "sorts_descending sort_values \<longleftrightarrow>
     (\<forall>s. mset (sort_values s) = mset s \<and> sorted_wrt (\<lambda>a b. snd b \<le> snd a) (sort_values s))"

definition sort_stable :: "(series \<Rightarrow> series) \<Rightarrow> bool" where
  "sort_stable sort_values \<longleftrightarrow>
     (\<forall>s v. filter (\<lambda>y. snd y = v) (sort_values s) = filter (\<lambda>y. snd y = v) s)"

text \<open>
  pandas sorts in descending order by reversing the rows, sorting them in ascending order
  and reversing the result. With a stable kind, equal values therefore stay in row order.
\<close>

definition sort_values_stable :: "series \<Rightarrow> series" where
  "sort_values_stable s = rev (sort_key snd (rev s))"

text \<open>
  The default kind on at most four rows. On x86 processors with AVX2 or AVX-512, numpy (from
  version 2.0) sorts doubles with their positions by the compare-exchange networks of
  x86-simd-sort. Up to four rows fill the lanes of one vector, the unused lanes holding
  \<open>+\<infinity>\<close> (\<open>None\<close> here); a compare-exchange of the lanes \<open>i < j\<close> swaps the two rows when the
  key in lane \<open>j\<close> is strictly smaller and leaves equal keys where they are; the network is
  \<open>(0,1) (2,3)\<close>, then \<open>(0,3) (1,2)\<close>, then \<open>(0,1) (2,3)\<close>; the rows are stored back without
  the unused lanes. Equal keys can leave row order: the middle step moves lane 0 behind lane
  3. Longer Series go through larger networks and a partitioning step that are not modelled:
  \<open>sort_values_simd4\<close> uses the stable order for them, and nothing below evaluates it there.
\<close>

definition lane_less :: "(label \<times> real) option \<Rightarrow> (label \<times> real) option \<Rightarrow> bool" where
  "lane_less a b =
     (case a of
        None \<Rightarrow> False
      | Some x \<Rightarrow> (case b of None \<Rightarrow> True | Some y \<Rightarrow> snd x < snd y))"

definition cmp_exchange ::
  "nat \<Rightarrow> nat \<Rightarrow> (label \<times> real) option list \<Rightarrow> (label \<times> real) option list" where
  "cmp_exchange i j v = (if lane_less (v ! j) (v ! i) then v[i := v ! j, j := v ! i] else v)"

definition argsort_simd4 :: "series \<Rightarrow> series" where
  "argsort_simd4 s =
     (let v0 = map Some s @ replicate (4 - length s) None;
          v1 = cmp_exchange 2 3 (cmp_exchange 0 1 v0);
          v2 = cmp_exchange 1 2 (cmp_exchange 0 3 v1);
          v3 = cmp_exchange 2 3 (cmp_exchange 0 1 v2)
      in concat (map (\<lambda>l. case l of None \<Rightarrow> [] | Some x \<Rightarrow> [x]) v3))"

definition sort_values_simd4 :: "series \<Rightarrow> series" where
  "sort_values_simd4 s =
     (if length s \<le> 4 then rev (argsort_simd4 (rev s)) else sort_values_stable s)"

record interp_entry =
  variables_dominantes :: "(label \<times> real) list"
  variance_expliquee :: real

text \<open>
  \<^verbatim>\<open>interpreter\<close>, the body of the loop for the component at position \<open>i\<close> with label \<open>cp\<close>:
  \<^verbatim>\<open>tri = L[cp].abs().sort_values(ascending=False)\<close>,
  \<^verbatim>\<open>top = tri.head(n_top)\<close>, and the entry
  \<^verbatim>\<open>{"variables_dominantes": L.loc[top.index, cp].to_dict(),
    "variance_expliquee": self.pca.explained_variance_ratio_[i] * 100}\<close>.
\<close>

definition interpreter_body ::
  "(series \<Rightarrow> series) \<Rightarrow> AnalyseACP \<Rightarrow> real DataFrame \<Rightarrow> int \<Rightarrow> nat \<Rightarrow> label
     \<Rightarrow> py_error + interp_entry" where
  "interpreter_body sort_values self L n_top i cp =
     (case getitem_col L cp of
        Inl e \<Rightarrow> Inl e
      | Inr col \<Rightarrow>
          (let tri = sort_values (series_abs col);
               top = head n_top tri
           in case loc_col L (map fst top) cp of
                Inl e \<Rightarrow> Inl e
              | Inr sel \<Rightarrow>
                  (case fitted_attrs self of
                     Inl e \<Rightarrow> Inl e
                   | Inr p \<Rightarrow>
                       if i < length (explained_variance_ratio p)
                       then Inr \<lparr>variables_dominantes = to_dict sel,
                                 variance_expliquee = explained_variance_ratio p ! i * 100\<rparr>
                       else Inl IndexError)))"

text \<open>
  The loop \<^verbatim>\<open>for i, cp in enumerate(L.columns[:5]): interp[cp] = ...\<close> and the method.
\<close>

fun interpreter_loop ::
  "(series \<Rightarrow> series) \<Rightarrow> AnalyseACP \<Rightarrow> real DataFrame \<Rightarrow> int \<Rightarrow> (nat \<times> label) list
     \<Rightarrow> (label \<times> interp_entry) list \<Rightarrow> py_error + (label \<times> interp_entry) list" where
  "interpreter_loop sort_values self L n_top [] interp = Inr interp"
| "interpreter_loop sort_values self L n_top ((i, cp) # rest) interp =
     (case interpreter_body sort_values self L n_top i cp of
        Inl e \<Rightarrow> Inl e
      | Inr entry \<Rightarrow> interpreter_loop sort_values self L n_top rest (dict_set cp entry interp))"

definition interpreter ::
  "(series \<Rightarrow> series) \<Rightarrow> AnalyseACP \<Rightarrow> int
     \<Rightarrow> py_error + (label \<times> interp_entry) list" where
  "interpreter sort_values self n_top =
     (case loadings self of
        Inl e \<Rightarrow> Inl e
      | Inr L \<Rightarrow> interpreter_loop sort_values self L n_top (enumerate 0 (take 5 (columns L))) [])"

text \<open>
  Column \<open>k\<close> of the loadings table, and the entry that the loop body builds for component
  \<open>k\<close> of a well-formed object with the variable names \<open>names\<close> (lemma
  \<open>interpreter_body_ok\<close>): the rows selected by \<^verbatim>\<open>L.loc[top.index, cp]\<close> turned into a dict.
\<close>

definition loading_column :: "PCA \<Rightarrow> nat \<Rightarrow> real list" where
  "loading_column p k =
     map (\<lambda>j. components p ! k ! j * sqrt (explained_variance p ! k)) [0..<n_features_in p]"

definition dominant_entry ::
  "(series \<Rightarrow> series) \<Rightarrow> PCA \<Rightarrow> label list \<Rightarrow> int \<Rightarrow> nat \<Rightarrow> interp_entry" where
  "dominant_entry srt p names n_top k =
     \<lparr>variables_dominantes =
        to_dict (concat (map (\<lambda>l. filter (\<lambda>(l', v). l' = l) (zip names (loading_column p k)))
           (map fst (head n_top (srt (series_abs (zip names (loading_column p k)))))))),
      variance_expliquee = explained_variance_ratio p ! k * 100\<rparr>"

text \<open>
  The row of a Series with pairwise distinct labels that carries the label of \<open>x\<close>: it gives
  a row of the sorted absolute values its signed value back.
\<close>

definition signed :: "series \<Rightarrow> label \<times> real \<Rightarrow> label \<times> real" where
  "signed col x = (fst x, the (map_of col (fst x)))"

subsection \<open>Sign convention and principal axes\<close>


text \<open>
  What makes a unit vector \<open>v\<close> with the number \<open>lam\<close> a principal axis of a data matrix: \<open>v\<close>
  is an eigenvector, for the eigenvalue \<open>lam\<close>, of the sample covariance matrix (divisor
  \<open>n - 1\<close>). \<open>principal_axes X p\<close> says it of every component of \<open>p\<close> with its eigenvalue:
  this is what fitting \<open>p\<close> on \<open>X\<close> means for the tables derived from \<open>p\<close>. \<open>complete_basis\<close> is
  the completeness of an orthonormal basis of all \<open>N\<close> directions (the components as columns
  of an orthogonal matrix). \<open>standardized\<close> is the spec's column-standardized matrix: mean 0
  and unit variance in every column.
\<close>

definition col_mean :: "real DataFrame \<Rightarrow> nat \<Rightarrow> real" where
  "col_mean X a = (\<Sum>row\<leftarrow>vals X. row ! a) / real (length (vals X))"

definition sample_cov :: "real DataFrame \<Rightarrow> nat \<Rightarrow> nat \<Rightarrow> real" where
  "sample_cov X a b =
     (\<Sum>row\<leftarrow>vals X. (row ! a - col_mean X a) * (row ! b - col_mean X b))
       / real (length (vals X) - 1)"

definition principal_axis :: "real DataFrame \<Rightarrow> real list \<Rightarrow> real \<Rightarrow> bool" where
  "principal_axis X v lam \<longleftrightarrow>
     (\<Sum>x\<leftarrow>v. x * x) = 1 \<and>
     list_all (\<lambda>a. (\<Sum>b\<leftarrow>[0..<length v]. sample_cov X a b * v ! b) = lam * v ! a)
       [0..<length v]"

definition principal_axes :: "real DataFrame \<Rightarrow> PCA \<Rightarrow> bool" where
  "principal_axes X p \<longleftrightarrow>
     list_all (\<lambda>k. principal_axis X (components p ! k) (explained_variance p ! k))
       [0..<length (components p)]"

definition complete_basis :: "PCA \<Rightarrow> bool" where
  "complete_basis p \<longleftrightarrow>
     list_all (\<lambda>a. list_all (\<lambda>b.
         (\<Sum>k\<leftarrow>[0..<length (components p)]. components p ! k ! a * components p ! k ! b)
           = (if a = b then 1 else 0))
       [0..<n_features_in p]) [0..<n_features_in p]"

definition standardized :: "real DataFrame \<Rightarrow> bool" where
  "standardized X \<longleftrightarrow>
     list_all (\<lambda>a. col_mean X a = 0 \<and> sample_cov X a a = 1) [0..<length (columns X)]"

subsection \<open>Example objects\<close>

text \<open>
  Eigenvalues \<open>[2.4, 0.4, 0.2]\<close> over three variables (components: the coordinate axes); the
  proportions are the eigenvalues divided by their total, 3.
\<close>

definition pca_240 :: PCA where
  "pca_240 =
     \<lparr>n_features_in = 3,
      components = [[1, 0, 0], [0, 1, 0], [0, 0, 1]],
      explained_variance = [2.4, 0.4, 0.2],
      explained_variance_ratio = [2.4 / 3, 0.4 / 3, 0.2 / 3]\<rparr>"

definition acp_240 :: AnalyseACP where
  "acp_240 =
     \<lparr>n_composantes = None, pca = Some (Fitted pca_240),
      noms_variables = Some [Str ''A'', Str ''B'', Str ''C'']\<rparr>"

text \<open>
  The same object in double precision: the eigenvalues are the doubles nearest to 2.4, 0.4
  and 0.2, their sum in double precision is exactly 3 (lemma \<open>total_240d\<close>), and the
  proportions are the rounded quotients, as the library computes them.
\<close>

definition pca_240d :: PCA where
  "pca_240d =
     \<lparr>n_features_in = 3,
      components = [[1, 0, 0], [0, 1, 0], [0, 0, 1]],
      explained_variance = [fl 2.4, fl 0.4, fl 0.2],
      explained_variance_ratio = [ddiv (fl 2.4) 3, ddiv (fl 0.4) 3, ddiv (fl 0.2) 3]\<rparr>"

definition acp_240d :: AnalyseACP where
  "acp_240d =
     \<lparr>n_composantes = None, pca = Some (Fitted pca_240d),
      noms_variables = Some [Str ''A'', Str ''B'', Str ''C'']\<rparr>"

text \<open>Eigenvalues \<open>[1.5, 1, 0.5]\<close>: the second one is exactly 1.\<close>

definition pca_unit :: PCA where
  "pca_unit =
     \<lparr>n_features_in = 3,
      components = [[1, 0, 0], [0, 1, 0], [0, 0, 1]],
      explained_variance = [1.5, 1, 0.5],
      explained_variance_ratio = [1.5 / 3, 1 / 3, 0.5 / 3]\<rparr>"

definition acp_unit :: AnalyseACP where
  "acp_unit =
     \<lparr>n_composantes = None, pca = Some (Fitted pca_unit),
      noms_variables = Some [Str ''A'', Str ''B'', Str ''C'']\<rparr>"

text \<open>
  A matrix of five observations of two variables (each column has mean 0) and its
  decomposition: sample covariance \<open>[[52/25, 36/25], [36/25, 73/25]]\<close>, eigenvalues 4 and 1,
  unit eigenvectors \<open>(3/5, 4/5)\<close> and \<open>(-4/5, 3/5)\<close>. The second axis is written with the
  sign that the sign convention reverses: \<open>flip_signs\<close> turns it into \<open>(4/5, -3/5)\<close>.
\<close>

definition X_rot :: "real DataFrame" where
  "X_rot =
     \<lparr>index = map (\<lambda>i. Num (int i)) [0..<5],
      columns = [Str ''A'', Str ''B''],
      vals = [[0.4, 2.2], [-2, -1], [2, 1], [-0.4, -2.2], [0, 0]]\<rparr>"

definition pca_rot :: PCA where
  "pca_rot =
     \<lparr>n_features_in = 2,
      components = [[3/5, 4/5], [-4/5, 3/5]],
      explained_variance = [4, 1],
      explained_variance_ratio = [4/5, 1/5]\<rparr>"

definition acp_rot :: AnalyseACP where
  "acp_rot =
     \<lparr>n_composantes = None, pca = Some (Fitted pca_rot),
      noms_variables = Some [Str ''A'', Str ''B'']\<rparr>"

text \<open>
  One retained component over three variables whose loadings are \<open>0.8, -0.9, 0.1\<close>: the
  unit vector \<open>(0.8, -0.9, 0.1) / sqrt 1.46\<close> with eigenvalue \<open>1.46\<close>.
\<close>

definition pca_dom :: PCA where
  "pca_dom =
     \<lparr>n_features_in = 3,
      components = [[0.8 / sqrt 1.46, - 0.9 / sqrt 1.46, 0.1 / sqrt 1.46]],
      explained_variance = [1.46],
      explained_variance_ratio = [1.46 / 3]\<rparr>"

definition acp_dom :: AnalyseACP where
  "acp_dom =
     \<lparr>n_composantes = Some 1, pca = Some (Fitted pca_dom),
      noms_variables = Some [Str ''A'', Str ''B'', Str ''C'']\<rparr>"

text \<open>
  One retained component over four variables whose loadings are \<open>0.25, 0.25, 1, -1\<close>: the
  unit vector \<open>(0.25, 0.25, 1, -1) / sqrt 2.125\<close> with the eigenvalue \<open>2.125\<close>. The first two
  variables tie in absolute value, and so do the last two.
\<close>

definition pca_quad :: PCA where
  "pca_quad =
     \<lparr>n_features_in = 4,
      components = [[0.25 / sqrt 2.125, 0.25 / sqrt 2.125, 1 / sqrt 2.125, - 1 / sqrt 2.125]],
      explained_variance = [2.125],
      explained_variance_ratio = [2.125 / 4]\<rparr>"

definition acp_quad :: AnalyseACP where
  "acp_quad =
     \<lparr>n_composantes = Some 1, pca = Some (Fitted pca_quad),
      noms_variables = Some [Str ''A'', Str ''B'', Str ''C'', Str ''D'']\<rparr>"

text \<open>A table whose two columns carry the same name.\<close>

definition pca_dup :: PCA where
  "pca_dup =
     \<lparr>n_features_in = 2,
      components = [[4/5, 3/5]],
      explained_variance = [1],
      explained_variance_ratio = [1/2]\<rparr>"

definition acp_dup :: AnalyseACP where
  "acp_dup =
     \<lparr>n_composantes = Some 1, pca = Some (Fitted pca_dup),
      noms_variables = Some [Str ''A'', Str ''A'']\<rparr>"

text \<open>
  A standardized matrix of five observations of two variables: each column has mean 0 and
  sample variance 1, the covariance is \<open>4/5\<close>. Its decomposition: eigenvalues \<open>9/5\<close> and \<open>1/5\<close>,
  unit eigenvectors \<open>(1, 1) / sqrt 2\<close> and \<open>(1, -1) / sqrt 2\<close>.
\<close>

definition X_std :: "real DataFrame" where
  "X_std =
     \<lparr>index = map (\<lambda>i. Num (int i)) [0..<5],
      columns = [Str ''A'', Str ''B''],
      vals = [[1, 7/5], [-1, -7/5], [1, 1/5], [-1, -1/5], [0, 0]]\<rparr>"

definition pca_std :: PCA where
  "pca_std =
     \<lparr>n_features_in = 2,
      components = [[sqrt 2 / 2, sqrt 2 / 2], [sqrt 2 / 2, - sqrt 2 / 2]],
      explained_variance = [9/5, 1/5],
      explained_variance_ratio = [9/10, 1/10]\<rparr>"

definition acp_std :: AnalyseACP where
  "acp_std =
     \<lparr>n_composantes = None, pca = Some (Fitted pca_std),
      noms_variables = Some [Str ''A'', Str ''B'']\<rparr>"





text \<open>Six components over six variables.\<close>

definition pca_six :: PCA where
  "pca_six =
     \<lparr>n_features_in = 6,
      components =
        [[1, 0, 0, 0, 0, 0], [0, 1, 0, 0, 0, 0], [0, 0, 1, 0, 0, 0],
         [0, 0, 0, 1, 0, 0], [0, 0, 0, 0, 1, 0], [0, 0, 0, 0, 0, 1]],
      explained_variance = [2, 1.5, 1, 0.8, 0.5, 0.2],
      explained_variance_ratio = [2 / 6, 1.5 / 6, 1 / 6, 0.8 / 6, 0.5 / 6, 0.2 / 6]\<rparr>"

definition acp_six :: AnalyseACP where
  "acp_six =
     \<lparr>n_composantes = None, pca = Some (Fitted pca_six),
      noms_variables =
        Some [Str ''V1'', Str ''V2'', Str ''V3'', Str ''V4'', Str ''V5'', Str ''V6'']\<rparr>"

section \<open>Properties\<close>

subsection \<open>Helper lemmas\<close>

lemma np_sum_bool_filter: "np_sum_bool (map P xs) = int (length (filter P xs))"
  by (induction xs) (simp_all add: np_sum_bool_def)

lemma length_cumsum_from: "length (cumsum_from add acc xs) = length xs"
  by (induction xs arbitrary: acc) simp_all

lemma length_np_cumsum: "length (np_cumsum add xs) = length xs"
  by (cases xs) (simp_all add: np_cumsum_def length_cumsum_from)

lemma cumsum_from_exact_nth:
  "k < length xs \<Longrightarrow> cumsum_from (+) acc xs ! k = acc + sum_list (take (Suc k) xs)"
proof (induction xs arbitrary: acc k)
  case Nil
  then show ?case by simp
next
  case (Cons x xs)
  show ?case
  proof (cases k)
    case 0
    then show ?thesis by simp
  next
    case (Suc m)
    with Cons.prems have "m < length xs" by simp
    from Cons.IH [OF this, of "acc + x"] Suc show ?thesis by simp
  qed
qed

lemma np_cumsum_exact_nth:
  "k < length xs \<Longrightarrow> np_cumsum (+) xs ! k = sum_list (take (Suc k) xs)"
proof (cases xs)
  case Nil
  then show "k < length xs \<Longrightarrow> ?thesis" by simp
next
  case (Cons x rest)
  show "k < length xs \<Longrightarrow> ?thesis"
  proof (cases k)
    case 0
    then show ?thesis by (simp add: Cons np_cumsum_def)
  next
    case (Suc m)
    assume "k < length xs"
    with Suc Cons have "m < length rest" by simp
    from cumsum_from_exact_nth [OF this, of x] show ?thesis
      by (simp add: Cons Suc np_cumsum_def)
  qed
qed

lemma fold_max_bool: "fold max bs b \<longleftrightarrow> b \<or> True \<in> set bs"
  by (induction bs arbitrary: b) (auto simp: max_def)

lemma np_argmax_some_True:
  "True \<in> set bs \<Longrightarrow> np_argmax bs = Inr (first_index True bs)"
  by (cases bs) (auto simp: np_argmax_def fold_max_bool)

lemma np_argmax_all_False:
  "bs \<noteq> [] \<Longrightarrow> True \<notin> set bs \<Longrightarrow> np_argmax bs = Inr 0"
  by (cases bs) (auto simp: np_argmax_def fold_max_bool)

lemma first_index_less: "a \<in> set xs \<Longrightarrow> first_index a xs < length xs"
  by (induction xs) auto

lemma first_index_nth: "a \<in> set xs \<Longrightarrow> xs ! first_index a xs = a"
  by (induction xs) auto

lemma first_index_least: "i < first_index a xs \<Longrightarrow> xs ! i \<noteq> a"
proof (induction xs arbitrary: i)
  case Nil
  then show ?case by simp
next
  case (Cons x xs)
  then show ?case by (cases i) (auto split: if_splits)
qed








subsection \<open>Kaiser rule\<close>

text \<open>
  Claim C5. On a fitted object the Kaiser rule returns the number of eigenvalues that are
  strictly greater than 1: the number of positions \<open>k\<close> with \<open>1 < explained_variance ! k\<close>.
  An eigenvalue equal to 1 is not such a position, so it is not counted.
\<close>

theorem critere_kaiser_strict_count:
  assumes "fitted_attrs self = Inr p"
  shows "critere_kaiser self = Inr (int (length (filter (\<lambda>x. 1 < x) (explained_variance p))))
         \<and> length (filter (\<lambda>x. 1 < x) (explained_variance p)) =
           card {k. k < length (explained_variance p) \<and> 1 < explained_variance p ! k}"
  using assms by (simp add: critere_kaiser_def np_sum_bool_filter length_filter_conv_card)

theorem critere_kaiser_strict_count_witness:
  "fitted_attrs acp_unit = Inr pca_unit \<and> critere_kaiser acp_unit = Inr 1"
proof -
  have h: "fitted_attrs acp_unit = Inr pca_unit"
    by (simp add: acp_unit_def fitted_attrs_def)
  from critere_kaiser_strict_count [OF h] h show ?thesis by (simp add: pca_unit_def)
qed

subsection \<open>Double precision\<close>

lemma binade_eq:
  assumes "2 powi e \<le> \<bar>x\<bar>" and "\<bar>x\<bar> < 2 powi (e + 1)"
  shows "binade x = e"
proof -
  have "(0::real) < 2 powi e" by (rule zero_less_power_int) simp
  with assms(1) have pos: "0 < \<bar>x\<bar>" by linarith
  have "(2::real) powr real_of_int e = 2 powi e"
    and "(2::real) powr real_of_int (e + 1) = 2 powi (e + 1)"
    by (rule powr_real_of_int'; simp)+
  with assms have "2 powr real_of_int e \<le> \<bar>x\<bar> \<and> \<bar>x\<bar> < 2 powr real_of_int (e + 1)"
    by (simp only:)
  then show ?thesis
    unfolding binade_def using floor_log_eq_powr_iff [of "\<bar>x\<bar>" 2 e] pos by simp
qed

lemma fl_in_binade:
  assumes "2 powi e \<le> \<bar>x\<bar>" and "\<bar>x\<bar> < 2 powi (e + 1)"
  shows "fl x = of_int (round_half_even (x * 2 powi (52 - e))) * 2 powi (e - 52)"
proof -
  have "(0::real) < 2 powi e" by (rule zero_less_power_int) simp
  with assms(1) have "0 < \<bar>x\<bar>" by linarith
  then have "x \<noteq> 0" by simp
  then show ?thesis by (simp add: fl_def binade_eq [OF assms])
qed

lemmas fl_eval = power_int_def power_divide round_half_even_def Let_def

lemma fl_24: "fl 2.4 = 5404319552844595 / 2 ^ 51"
  by (subst fl_in_binade [of 1]) (simp_all add: fl_eval)

lemma fl_04: "fl 0.4 = 7205759403792794 / 2 ^ 54"
  by (subst fl_in_binade [of "-2"]) (simp_all add: fl_eval)

lemma fl_02: "fl 0.2 = 7205759403792794 / 2 ^ 55"
  by (subst fl_in_binade [of "-3"]) (simp_all add: fl_eval)

lemma total_240d: "dadd (dadd (fl 2.4) (fl 0.4)) (fl 0.2) = 3"
proof -
  have "dadd (fl 2.4) (fl 0.4) = 6305039478318694 / 2 ^ 51"
    unfolding dadd_def fl_24 fl_04
    by (subst fl_in_binade [of 1]) (simp_all add: fl_eval)
  then show ?thesis
    unfolding dadd_def fl_02
    by (simp only:) (subst fl_in_binade [of 1], simp_all add: fl_eval)
qed

lemma ratio_240d_0: "ddiv (fl 2.4) 3 = 7205759403792793 / 2 ^ 53"
  unfolding ddiv_def fl_24
  by (subst fl_in_binade [of "-1"]) (simp_all add: fl_eval)

lemma ratio_240d_1: "ddiv (fl 0.4) 3 = 4803839602528529 / 2 ^ 55"
  unfolding ddiv_def fl_04
  by (subst fl_in_binade [of "-3"]) (simp_all add: fl_eval)

lemma ratio_240d_2: "ddiv (fl 0.2) 3 = 4803839602528529 / 2 ^ 56"
  unfolding ddiv_def fl_02
  by (subst fl_in_binade [of "-4"]) (simp_all add: fl_eval)

lemma fl_080: "fl 0.80 = 7205759403792794 / 2 ^ 53"
  by (subst fl_in_binade [of "-1"]) (simp_all add: fl_eval)

lemma fl_079: "fl 0.79 = 7115687411245384 / 2 ^ 53"
  by (subst fl_in_binade [of "-1"]) (simp_all add: fl_eval)

lemma fl_081: "fl 0.81 = 7295831396340204 / 2 ^ 53"
  by (subst fl_in_binade [of "-1"]) (simp_all add: fl_eval)

lemma fl_12: "fl 1.2 = 5404319552844595 / 2 ^ 52"
  by (subst fl_in_binade [of 0]) (simp_all add: fl_eval)

lemma cumul_240d:
  "np_cumsum dadd (explained_variance_ratio pca_240d) =
     [7205759403792793 / 2 ^ 53, 8406719304424925 / 2 ^ 53, 9007199254740991 / 2 ^ 53]"
proof -
  have c1: "dadd (7205759403792793 / 2 ^ 53) (4803839602528529 / 2 ^ 55)
            = 8406719304424925 / 2 ^ 53"
    unfolding dadd_def by (subst fl_in_binade [of "-1"]) (simp_all add: fl_eval)
  have c2: "dadd (8406719304424925 / 2 ^ 53) (4803839602528529 / 2 ^ 56)
            = 9007199254740991 / 2 ^ 53"
    unfolding dadd_def by (subst fl_in_binade [of "-1"]) (simp_all add: fl_eval)
  show ?thesis
    unfolding pca_240d_def np_cumsum_def
    by (simp only: PCA.simps list.case cumsum_from.simps ratio_240d_0 ratio_240d_1 ratio_240d_2 c1 c2)
qed

subsection \<open>Variance threshold rule\<close>

lemma seuil_variance_first_reaching:
  assumes fit: "fitted_attrs self = Inr p"
    and reach: "\<exists>k<length (explained_variance_ratio p).
                  seuil \<le> np_cumsum add (explained_variance_ratio p) ! k"
  shows "\<exists>n. seuil_variance add self seuil = Inr (int n) \<and> 1 \<le> n \<and>
             n \<le> length (explained_variance_ratio p) \<and>
             seuil \<le> np_cumsum add (explained_variance_ratio p) ! (n - 1) \<and>
             (\<forall>k<n - 1. \<not> seuil \<le> np_cumsum add (explained_variance_ratio p) ! k)"
proof -
  define cumul where "cumul = np_cumsum add (explained_variance_ratio p)"
  define bs where "bs = map (\<lambda>c. seuil \<le> c) cumul"
  define a where "a = first_index True bs"
  have len: "length bs = length (explained_variance_ratio p)"
    by (simp add: bs_def cumul_def length_np_cumsum)
  have nth: "bs ! k = (seuil \<le> cumul ! k)" if "k < length (explained_variance_ratio p)" for k
    using that by (simp add: bs_def cumul_def length_np_cumsum)
  from reach obtain k where k: "k < length (explained_variance_ratio p)" "seuil \<le> cumul ! k"
    unfolding cumul_def by blast
  then have "bs ! k = True" by (simp add: nth)
  with k(1) len have mem: "True \<in> set bs"
    by (auto simp: in_set_conv_nth)
  have a_lt: "a < length (explained_variance_ratio p)"
    using first_index_less [OF mem] len by (simp add: a_def)
  have a_hit: "seuil \<le> cumul ! a"
    using first_index_nth [OF mem] nth [OF a_lt] by (simp add: a_def)
  have a_least: "\<not> seuil \<le> cumul ! i" if "i < a" for i
  proof -
    from that have "bs ! i \<noteq> True"
      unfolding a_def by (rule first_index_least)
    moreover from that a_lt have "i < length (explained_variance_ratio p)" by simp
    ultimately show ?thesis by (simp add: nth)
  qed
  have "np_argmax bs = Inr a"
    unfolding a_def by (rule np_argmax_some_True [OF mem])
  then have res: "seuil_variance add self seuil = Inr (int (Suc a))"
    using fit by (simp add: seuil_variance_def cumul_def bs_def)
  show ?thesis
    using res a_lt a_hit a_least
    by (intro exI [of _ "Suc a"]) (simp add: cumul_def)
qed

lemma seuil_variance_none_reaching:
  assumes fit: "fitted_attrs self = Inr p"
    and ne: "explained_variance_ratio p \<noteq> []"
    and unreach: "\<forall>k<length (explained_variance_ratio p).
                  \<not> seuil \<le> np_cumsum add (explained_variance_ratio p) ! k"
  shows "seuil_variance add self seuil = Inr 1"
proof -
  define cumul where "cumul = np_cumsum add (explained_variance_ratio p)"
  define bs where "bs = map (\<lambda>c. seuil \<le> c) cumul"
  have len: "length bs = length (explained_variance_ratio p)"
    by (simp add: bs_def cumul_def length_np_cumsum)
  have nomem: "True \<notin> set bs"
  proof
    assume "True \<in> set bs"
    then obtain k where "k < length bs" "bs ! k = True"
      by (auto simp: in_set_conv_nth)
    with unreach len show False
      by (simp add: bs_def cumul_def length_np_cumsum)
  qed
  from ne len have bne: "bs \<noteq> []" by auto
  have "np_argmax bs = Inr 0" by (rule np_argmax_all_False [OF bne nomem])
  then show ?thesis
    using fit by (simp add: seuil_variance_def cumul_def bs_def)
qed

lemma fitted_240d: "fitted_attrs acp_240d = Inr pca_240d"
  by (simp add: acp_240d_def fitted_attrs_def)

lemma seuil_variance_240d:
  "seuil_variance dadd acp_240d seuil =
     (case np_argmax (map (\<lambda>c. seuil \<le> c)
        [7205759403792793 / 2 ^ 53, 8406719304424925 / 2 ^ 53, 9007199254740991 / 2 ^ 53])
      of Inl e \<Rightarrow> Inl e | Inr a \<Rightarrow> Inr (int a + 1))"
  by (simp only: seuil_variance_def fitted_240d sum.case Let_def cumul_240d)

lemma d079: "seuil_variance dadd acp_240d (fl 0.79) = Inr 1"
  unfolding seuil_variance_240d fl_079 by (simp add: np_argmax_def)

lemma d080: "seuil_variance dadd acp_240d (fl 0.80) = Inr 2"
  unfolding seuil_variance_240d fl_080 by (simp add: np_argmax_def)

lemma d081: "seuil_variance dadd acp_240d (fl 0.81) = Inr 2"
  unfolding seuil_variance_240d fl_081 by (simp add: np_argmax_def)

lemma d12: "seuil_variance dadd acp_240d (fl 1.2) = Inr 1"
  unfolding seuil_variance_240d fl_12 by (simp add: np_argmax_def)

lemma d_first_below: "explained_variance_ratio pca_240d ! 0 < fl 0.80"
  unfolding pca_240d_def by (simp only: PCA.simps nth_Cons_0 ratio_240d_0 fl_080) simp

lemma fitted_240: "fitted_attrs acp_240 = Inr pca_240"
  by (simp add: acp_240_def fitted_attrs_def)

lemma fitted_unit: "fitted_attrs acp_unit = Inr pca_unit"
  by (simp add: acp_unit_def fitted_attrs_def)

text \<open>
  Claim C3, as amended. \<open>explained_variance_ratio\<close> is the library's list of eigenvalue over
  total variance, in descending eigenvalue order. On a fitted object, for a target that some
  cumulative proportion reaches, \<open>seuil_variance\<close> returns the smallest count \<open>n\<close> whose
  cumulative proportion, as \<^verbatim>\<open>np.cumsum\<close> computes it, is at least the target; the comparison
  is inclusive. This holds whatever the addition of floats is; with exact addition the
  cumulative proportion over \<open>n\<close> components is the sum of the first \<open>n\<close> proportions. In double
  precision, with the eigenvalues \<open>[2.4, 0.4, 0.2]\<close> (total 3), it returns 1 for the target
  0.79 and 2 for the target 0.81.
\<close>

theorem seuil_variance_smallest_count:
  "(fitted_attrs self = Inr p \<and>
    (\<exists>k<length (explained_variance_ratio p).
        seuil \<le> np_cumsum add (explained_variance_ratio p) ! k)
    \<longrightarrow> (\<exists>n. seuil_variance add self seuil = Inr (int n) \<and> 1 \<le> n \<and>
             n \<le> length (explained_variance_ratio p) \<and>
             seuil \<le> np_cumsum add (explained_variance_ratio p) ! (n - 1) \<and>
             (\<forall>k<n - 1. \<not> seuil \<le> np_cumsum add (explained_variance_ratio p) ! k)))
   \<and> (\<forall>k<length xs. np_cumsum (+) xs ! k = sum_list (take (Suc k) xs))
   \<and> seuil_variance dadd acp_240d (fl 0.79) = Inr 1
   \<and> seuil_variance dadd acp_240d (fl 0.81) = Inr 2"
proof (intro conjI impI allI)
  assume "fitted_attrs self = Inr p \<and>
    (\<exists>k<length (explained_variance_ratio p).
        seuil \<le> np_cumsum add (explained_variance_ratio p) ! k)"
  then show "\<exists>n. seuil_variance add self seuil = Inr (int n) \<and> 1 \<le> n \<and>
             n \<le> length (explained_variance_ratio p) \<and>
             seuil \<le> np_cumsum add (explained_variance_ratio p) ! (n - 1) \<and>
             (\<forall>k<n - 1. \<not> seuil \<le> np_cumsum add (explained_variance_ratio p) ! k)"
    using seuil_variance_first_reaching [of self p seuil add] by blast
next
  fix k assume "k < length xs"
  then show "np_cumsum (+) xs ! k = sum_list (take (Suc k) xs)"
    by (rule np_cumsum_exact_nth)
next
  show "seuil_variance dadd acp_240d (fl 0.79) = Inr 1" by (rule d079)
next
  show "seuil_variance dadd acp_240d (fl 0.81) = Inr 2" by (rule d081)
qed

text \<open>
  The general part with exact addition at the proportions \<open>1/2, 1/3, 1/6\<close> and the target
  \<open>0.8\<close>: two components are needed, \<open>1/2 + 1/3 = 5/6\<close>.
\<close>

theorem seuil_variance_smallest_count_witness:
  "seuil_variance (+) acp_unit 0.8 = Inr 2"
proof -
  let ?r = "explained_variance_ratio pca_unit"
  have exact: "np_cumsum (+) ?r ! k = sum_list (take (Suc k) ?r)" if "k < length ?r" for k
    using seuil_variance_smallest_count [of acp_unit pca_unit "0.8" "(+)" ?r] that by blast
  have "0.8 \<le> np_cumsum (+) ?r ! 1"
    by (subst exact) (simp_all add: pca_unit_def)
  then have reach: "\<exists>k<length ?r. 0.8 \<le> np_cumsum (+) ?r ! k"
    by (intro exI [of _ 1]) (simp add: pca_unit_def)
  from seuil_variance_smallest_count [of acp_unit pca_unit "0.8" "(+)" ?r] fitted_unit reach
  obtain n where n: "seuil_variance (+) acp_unit 0.8 = Inr (int n)" "1 \<le> n" "n \<le> length ?r"
    "0.8 \<le> np_cumsum (+) ?r ! (n - 1)" "\<forall>k<n - 1. \<not> 0.8 \<le> np_cumsum (+) ?r ! k"
    by blast
  have "\<not> 2 < n"
  proof
    assume "2 < n"
    with n(5) have "\<not> 0.8 \<le> np_cumsum (+) ?r ! 1" by simp
    then show False by (subst (asm) exact) (simp_all add: pca_unit_def)
  qed
  moreover have "n \<noteq> 1"
  proof
    assume "n = 1"
    with n(4) have "0.8 \<le> np_cumsum (+) ?r ! 0" by simp
    then show False by (subst (asm) exact) (simp_all add: pca_unit_def)
  qed
  ultimately have "n = 2" using n(2) by simp
  with n(1) show ?thesis by simp
qed

text \<open>
  Claim C3 as stated fails at its own boundary example. In double precision the eigenvalues
  2.4, 0.4 and 0.2 sum to 3, the first proportion \<open>2.4 / 3\<close> is the double just below the
  double \<open>0.80\<close>, and the rule returns 2 for the target 0.80, not 1.
\<close>

theorem seuil_variance_boundary_counterexample:
  "dadd (dadd (fl 2.4) (fl 0.4)) (fl 0.2) = 3 \<and>
   explained_variance_ratio pca_240d ! 0 < fl 0.80 \<and>
   seuil_variance dadd acp_240d (fl 0.80) = Inr 2"
  by (intro conjI total_240d d_first_below d080)

text \<open>
  Claim C4. When no cumulative proportion reaches the target, the comparison array is all
  \<open>False\<close>, \<open>np.argmax\<close> answers 0, and \<open>seuil_variance\<close> returns 1: no exception is raised.
  This holds whatever the addition of floats is; with exact addition the cumulative
  proportions are the sums of the first proportions.
\<close>

theorem seuil_variance_unreachable_returns_one:
  "(fitted_attrs self = Inr p \<and> explained_variance_ratio p \<noteq> [] \<and>
    (\<forall>k<length (explained_variance_ratio p).
        \<not> seuil \<le> np_cumsum add (explained_variance_ratio p) ! k)
    \<longrightarrow> seuil_variance add self seuil = Inr 1)
   \<and> (fitted_attrs self = Inr p \<and> explained_variance_ratio p \<noteq> [] \<and>
    (\<forall>k<length (explained_variance_ratio p).
        \<not> seuil \<le> sum_list (take (Suc k) (explained_variance_ratio p)))
    \<longrightarrow> seuil_variance (+) self seuil = Inr 1)"
proof (intro conjI impI)
  assume "fitted_attrs self = Inr p \<and> explained_variance_ratio p \<noteq> [] \<and>
    (\<forall>k<length (explained_variance_ratio p).
        \<not> seuil \<le> np_cumsum add (explained_variance_ratio p) ! k)"
  then show "seuil_variance add self seuil = Inr 1"
    using seuil_variance_none_reaching [of self p seuil add] by blast
next
  assume a: "fitted_attrs self = Inr p \<and> explained_variance_ratio p \<noteq> [] \<and>
    (\<forall>k<length (explained_variance_ratio p).
        \<not> seuil \<le> sum_list (take (Suc k) (explained_variance_ratio p)))"
  then have "\<forall>k<length (explained_variance_ratio p).
        \<not> seuil \<le> np_cumsum (+) (explained_variance_ratio p) ! k"
    by (simp add: np_cumsum_exact_nth)
  with a show "seuil_variance (+) self seuil = Inr 1"
    using seuil_variance_none_reaching [of self p seuil "(+)"] by blast
qed

text \<open>
  The proportions of the eigenvalues \<open>[2.4, 0.4, 0.2]\<close> and the target 1.2, with exact
  addition and in double precision.
\<close>

theorem seuil_variance_unreachable_returns_one_witness:
  "seuil_variance (+) acp_240 1.2 = Inr 1 \<and> seuil_variance dadd acp_240d (fl 1.2) = Inr 1"
proof
  let ?r = "explained_variance_ratio pca_240"
  have ne: "?r \<noteq> []" by (simp add: pca_240_def)
  have unreach: "\<forall>k<length ?r. \<not> 1.2 \<le> sum_list (take (Suc k) ?r)"
  proof (intro allI impI)
    fix k assume "k < length ?r"
    then have "k = 0 \<or> k = 1 \<or> k = 2" by (auto simp: pca_240_def)
    then show "\<not> 1.2 \<le> sum_list (take (Suc k) ?r)"
      by (auto simp: pca_240_def numeral_2_eq_2)
  qed
  from seuil_variance_unreachable_returns_one [of acp_240 pca_240 "1.2" "(+)"]
    fitted_240 ne unreach
  show "seuil_variance (+) acp_240 1.2 = Inr 1" by blast
next
  let ?r = "explained_variance_ratio pca_240d"
  have ne: "?r \<noteq> []" by (simp add: pca_240d_def)
  have len: "length ?r = 3" by (simp add: pca_240d_def)
  have unreach: "\<forall>k<length ?r. \<not> fl 1.2 \<le> np_cumsum dadd ?r ! k"
  proof (intro allI impI)
    fix k assume "k < length ?r"
    with len have "k = 0 \<or> k = 1 \<or> k = 2" by auto
    then show "\<not> fl 1.2 \<le> np_cumsum dadd ?r ! k"
      unfolding cumul_240d fl_12 by (auto simp: numeral_2_eq_2)
  qed
  from seuil_variance_unreachable_returns_one [of acp_240d pca_240d "fl 1.2" dadd]
    fitted_240d ne unreach
  show "seuil_variance dadd acp_240d (fl 1.2) = Inr 1" by blast
qed

subsection \<open>Loadings\<close>

lemma fitted_attrs_wf: "wf_acp self p \<Longrightarrow> fitted_attrs self = Inr p"
  by (simp add: wf_acp_def fitted_attrs_def)

lemma mul_rows_T:
  assumes "length v = length M"
  shows "mul_rows (T n M) (map f v) =
         map (\<lambda>j. map (\<lambda>k. M ! k ! j * f (v ! k)) [0..<length M]) [0..<n]"
proof -
  have "map (\<lambda>(a, b). a * b) (zip (map (\<lambda>row. row ! j) M) (map f v)) =
        map (\<lambda>k. M ! k ! j * f (v ! k)) [0..<length M]" for j
    using assms by (intro nth_equalityI) simp_all
  then show ?thesis by (simp add: mul_rows_def T_def)
qed

lemma loadings_wf:
  assumes "wf_acp self p" and "noms_variables self = Some names"
  shows "loadings self =
         Inr \<lparr>index = names, columns = map cp_label [0..<length (components p)],
              vals = loading_matrix p\<rparr>"
proof -
  from assms have len: "length (explained_variance p) = length (components p)"
    and names: "length names = n_features_in p"
    by (simp_all add: wf_acp_def wf_pca_def)
  show ?thesis
    using assms(2) names
    by (simp add: loadings_def fitted_attrs_wf [OF assms(1)] mul_rows_T [OF len]
        new_DataFrame_def loading_matrix_def)
qed

lemma loading_matrix_nth:
  "j < n_features_in p \<Longrightarrow> k < length (components p) \<Longrightarrow>
   loading_matrix p ! j ! k = components p ! k ! j * sqrt (explained_variance p ! k)"
  by (simp add: loading_matrix_def)

lemma wf_acp_rot: "wf_acp acp_rot pca_rot"
  by (simp add: wf_acp_def wf_pca_def acp_rot_def pca_rot_def)

text \<open>
  Claim C1. On a fitted object with \<open>N\<close> variables and \<open>K\<close> components, \<open>loadings\<close> returns
  a table of \<open>N\<close> rows of length \<open>K\<close> whose entry \<open>(j, k)\<close> is the \<open>j\<close>-th coordinate of
  component \<open>k\<close> times the square root of eigenvalue \<open>k\<close>.
\<close>

theorem loadings_entries:
  assumes "wf_acp self p"
  shows "\<exists>L. loadings self = Inr L \<and>
             length (vals L) = n_features_in p \<and>
             list_all (\<lambda>row. length row = length (components p)) (vals L) \<and>
             (\<forall>j<n_features_in p. \<forall>k<length (components p).
                vals L ! j ! k = components p ! k ! j * sqrt (explained_variance p ! k))"
proof -
  from assms obtain names where n: "noms_variables self = Some names"
    by (auto simp: wf_acp_def split: option.splits)
  show ?thesis
    by (simp add: loadings_wf [OF assms n] loading_matrix_nth)
       (simp add: loading_matrix_def list_all_iff)
qed

theorem loadings_entries_witness:
  "\<exists>L. loadings acp_rot = Inr L \<and> length (vals L) = 2 \<and>
       vals L ! 0 ! 0 = 6/5 \<and> vals L ! 1 ! 0 = 8/5 \<and>
       vals L ! 0 ! 1 = - 4/5 \<and> vals L ! 1 ! 1 = 3/5"
proof -
  from loadings_entries [OF wf_acp_rot] obtain L where
    L: "loadings acp_rot = Inr L" "length (vals L) = n_features_in pca_rot"
    and e: "\<forall>j<n_features_in pca_rot. \<forall>k<length (components pca_rot).
              vals L ! j ! k =
              components pca_rot ! k ! j * sqrt (explained_variance pca_rot ! k)"
    by blast
  have n: "n_features_in pca_rot = 2" "length (components pca_rot) = 2"
    by (simp_all add: pca_rot_def)
  have "vals L ! 0 ! 0 = 6/5" "vals L ! 1 ! 0 = 8/5"
       "vals L ! 0 ! 1 = - 4/5" "vals L ! 1 ! 1 = 3/5"
    using e n by (simp_all add: pca_rot_def)
  with L n show ?thesis by auto
qed

subsection \<open>Communalities\<close>

lemma sum_list_upt_sum: "(\<Sum>i\<leftarrow>[0..<n]. f i) = sum f {0..<n}"
  for f :: "nat \<Rightarrow> real"
  by (simp add: interv_sum_list_conv_sum_set_nat)

lemma principal_axis_eq:
  assumes "principal_axis X v lam" and "a < length v"
  shows "(\<Sum>b = 0..<length v. sample_cov X a b * v ! b) = lam * v ! a"
  using assms by (simp add: principal_axis_def list_all_length sum_list_upt_sum)

lemma principal_axis_unit:
  assumes "principal_axis X v lam"
  shows "(\<Sum>a = 0..<length v. v ! a * v ! a) = 1"
proof -
  have "(\<Sum>x\<leftarrow>v. x * x) = (\<Sum>a = 0..<length v. v ! a * v ! a)"
    by (simp add: sum_list_sum_nth [of "map (\<lambda>x. x * x) v"])
  with assms show ?thesis by (simp add: principal_axis_def)
qed

lemma spectral_identity:
  assumes wf: "wf_pca p" and KN: "length (components p) = n_features_in p"
    and ax: "principal_axes X p" and cb: "complete_basis p"
    and a: "a < n_features_in p" and b: "b < n_features_in p"
  shows "(\<Sum>k = 0..<length (components p).
            explained_variance p ! k * components p ! k ! a * components p ! k ! b)
         = sample_cov X a b"
proof -
  let ?K = "length (components p)" and ?N = "n_features_in p"
  let ?v = "\<lambda>k. components p ! k"
  have len: "length (?v k) = ?N" if "k < ?K" for k
    using wf that by (simp add: wf_pca_def list_all_length)
  have eig: "explained_variance p ! k * ?v k ! a = (\<Sum>c = 0..<?N. sample_cov X a c * ?v k ! c)"
    if "k < ?K" for k
  proof -
    from ax that have "principal_axis X (?v k) (explained_variance p ! k)"
      by (simp add: principal_axes_def list_all_length)
    from principal_axis_eq [OF this, of a] a len [OF that] show ?thesis by simp
  qed
  have delta: "(\<Sum>k = 0..<?K. ?v k ! c * ?v k ! b) = (if c = b then 1 else 0)" if "c < ?N" for c
    using cb that b by (simp add: complete_basis_def list_all_length sum_list_upt_sum)
  have "(\<Sum>k = 0..<?K. explained_variance p ! k * ?v k ! a * ?v k ! b)
      = (\<Sum>k = 0..<?K. (\<Sum>c = 0..<?N. sample_cov X a c * ?v k ! c) * ?v k ! b)"
    by (rule sum.cong) (simp_all add: eig)
  also have "\<dots> = (\<Sum>k = 0..<?K. \<Sum>c = 0..<?N. sample_cov X a c * (?v k ! c * ?v k ! b))"
    by (simp add: sum_distrib_right mult.assoc)
  also have "\<dots> = (\<Sum>c = 0..<?N. \<Sum>k = 0..<?K. sample_cov X a c * (?v k ! c * ?v k ! b))"
    by (rule sum.swap)
  also have "\<dots> = (\<Sum>c = 0..<?N. sample_cov X a c * (\<Sum>k = 0..<?K. ?v k ! c * ?v k ! b))"
    by (simp add: sum_distrib_left)
  also have "\<dots> = (\<Sum>c = 0..<?N. sample_cov X a c * (if c = b then 1 else 0))"
    by (rule sum.cong) (simp_all add: delta)
  also have "\<dots> = (\<Sum>c = 0..<?N. if c = b then sample_cov X a c else 0)"
    by (rule sum.cong) simp_all
  also have "\<dots> = sample_cov X a b"
    using b by (simp only: sum.delta finite_atLeastLessThan) simp
  finally show ?thesis .
qed

lemma row_sum_squares:
  assumes wf: "wf_pca p" and j: "j < n_features_in p"
  shows "(\<Sum>x\<leftarrow>loading_matrix p ! j. x ^ 2) =
         (\<Sum>k = 0..<length (components p).
            explained_variance p ! k * components p ! k ! j * components p ! k ! j)"
proof -
  have ev: "0 \<le> explained_variance p ! k" if "k < length (components p)" for k
    using wf that by (simp add: wf_pca_def list_all_length)
  have "(\<Sum>x\<leftarrow>loading_matrix p ! j. x ^ 2) =
        (\<Sum>k = 0..<length (components p).
           (components p ! k ! j * sqrt (explained_variance p ! k)) ^ 2)"
    using j by (simp add: loading_matrix_def o_def sum_list_upt_sum)
  also have "\<dots> = (\<Sum>k = 0..<length (components p).
            explained_variance p ! k * components p ! k ! j * components p ! k ! j)"
    by (rule sum.cong) (simp_all add: power_mult_distrib ev power2_eq_square)
  finally show ?thesis .
qed

lemma communalites_wf:
  assumes wf: "wf_acp self p" and names: "noms_variables self = Some names"
  shows "communalites self =
         Inr \<lparr>Variable = map Some names,
              Communalite = map (\<lambda>j. np_round 4 (\<Sum>x\<leftarrow>loading_matrix p ! j. x ^ 2))
                              [0..<n_features_in p]\<rparr>"
proof -
  from wf names have len: "length names = n_features_in p" by (simp add: wf_acp_def)
  have lm: "length (loading_matrix p) = n_features_in p" by (simp add: loading_matrix_def)
  have "map (np_round 4) (map (\<lambda>row. \<Sum>x\<leftarrow>row. x ^ 2) (loading_matrix p)) =
        map (\<lambda>j. np_round 4 (\<Sum>x\<leftarrow>loading_matrix p ! j. x ^ 2)) [0..<n_features_in p]"
    by (intro nth_equalityI) (simp_all add: lm)
  then show ?thesis
    using names len lm
    by (simp add: communalites_def loadings_wf [OF wf names] Let_def)
qed

lemma np_round_one: "np_round 4 1 = 1"
  by (simp add: np_round_def round_half_even_def)

lemma cov_rot:
  "sample_cov X_rot 0 0 = 52/25" "sample_cov X_rot 0 (Suc 0) = 36/25"
  "sample_cov X_rot (Suc 0) 0 = 36/25" "sample_cov X_rot (Suc 0) (Suc 0) = 73/25"
  by (simp_all add: X_rot_def sample_cov_def col_mean_def)

lemma cov_std:
  "sample_cov X_std 0 0 = 1" "sample_cov X_std 0 (Suc 0) = 4/5"
  "sample_cov X_std (Suc 0) 0 = 4/5" "sample_cov X_std (Suc 0) (Suc 0) = 1"
  by (simp_all add: X_std_def sample_cov_def col_mean_def)

lemma mean_std: "col_mean X_std 0 = 0" "col_mean X_std (Suc 0) = 0"
  by (simp_all add: X_std_def col_mean_def)

lemma axes_rot: "principal_axes X_rot pca_rot"
  by (simp add: principal_axes_def principal_axis_def pca_rot_def upt_rec cov_rot
      del: upt_Suc)

lemma axes_std: "principal_axes X_std pca_std"
  by (simp add: principal_axes_def principal_axis_def pca_std_def upt_rec cov_std
      del: upt_Suc)

lemma basis_rot: "complete_basis pca_rot"
  by (simp add: complete_basis_def pca_rot_def upt_rec del: upt_Suc)

lemma basis_std: "complete_basis pca_std"
  by (simp add: complete_basis_def pca_std_def upt_rec del: upt_Suc)

lemma standardized_std: "standardized X_std"
proof -
  have "length (columns X_std) = 2" by (simp add: X_std_def)
  then show ?thesis
    by (simp add: standardized_def upt_rec cov_std mean_std del: upt_Suc)
qed

lemma wf_acp_std: "wf_acp acp_std pca_std"
  by (simp add: wf_acp_def wf_pca_def acp_std_def pca_std_def)

text \<open>
  Claim C2. Take a fitted object that keeps all components (\<open>K = N\<close>) and whose
  decomposition belongs to the matrix \<open>X\<close>: every component is a principal axis of \<open>X\<close> with
  its eigenvalue, and the components form a complete orthonormal basis. Then \<open>communalites\<close>
  returns, for every variable, the sum of its squared loadings over all components, and
  that sum is the sample variance of the variable's column of \<open>X\<close> (rounded to four
  decimals, as the method does). If \<open>X\<close> is standardized, every communality is 1.
\<close>

theorem communalites_unit:
  assumes wf: "wf_acp self p" and KN: "length (components p) = n_features_in p"
    and ax: "principal_axes X p" and cb: "complete_basis p"
    and cols: "length (columns X) = n_features_in p"
  shows "\<exists>t. communalites self = Inr t \<and>
           length (Communalite t) = n_features_in p \<and>
           Communalite t = map (\<lambda>j. np_round 4 (sample_cov X j j)) [0..<n_features_in p] \<and>
           (standardized X \<longrightarrow> (\<forall>j<n_features_in p. Communalite t ! j = 1))"
proof -
  from wf obtain names where names: "noms_variables self = Some names"
    by (auto simp: wf_acp_def split: option.splits)
  from wf have wfp: "wf_pca p" by (simp add: wf_acp_def)
  let ?t = "\<lparr>Variable = map Some names,
              Communalite = map (\<lambda>j. np_round 4 (\<Sum>x\<leftarrow>loading_matrix p ! j. x ^ 2))
                              [0..<n_features_in p]\<rparr>"
  have t: "communalites self = Inr ?t" by (rule communalites_wf [OF wf names])
  have h2: "(\<Sum>x\<leftarrow>loading_matrix p ! j. x ^ 2) = sample_cov X j j" if "j < n_features_in p" for j
    using row_sum_squares [OF wfp that] spectral_identity [OF wfp KN ax cb that that] by simp
  have c: "Communalite ?t = map (\<lambda>j. np_round 4 (sample_cov X j j)) [0..<n_features_in p]"
    by (simp add: h2)
  have "Communalite ?t ! j = 1" if "standardized X" "j < n_features_in p" for j
  proof -
    from that cols have "sample_cov X j j = 1" by (simp add: standardized_def list_all_length)
    with that(2) show ?thesis by (simp add: h2 np_round_one)
  qed
  with t c show ?thesis by (intro exI [of _ ?t]) simp
qed

text \<open>
  The standardized matrix \<open>X_std\<close> with its decomposition gives the communalities \<open>1, 1\<close>;
  the matrix \<open>X_rot\<close>, which is not standardized, gives the variances of its columns.
\<close>

theorem communalites_unit_witness:
  "(\<exists>t. communalites acp_std = Inr t \<and> Communalite t = [1, 1]) \<and>
   (\<exists>t. communalites acp_rot = Inr t \<and> Communalite t = [52/25, 73/25])"
proof
  have KN: "length (components pca_std) = n_features_in pca_std"
    and cols: "length (columns X_std) = n_features_in pca_std"
    and N: "n_features_in pca_std = 2"
    by (simp_all add: pca_std_def X_std_def)
  from communalites_unit [OF wf_acp_std KN axes_std basis_std cols]
  obtain t where t: "communalites acp_std = Inr t"
    and u: "standardized X_std \<longrightarrow> (\<forall>j<n_features_in pca_std. Communalite t ! j = 1)"
    and len: "length (Communalite t) = n_features_in pca_std"
    by blast
  from u standardized_std N have "Communalite t ! 0 = 1" "Communalite t ! 1 = 1" by simp_all
  with len N have "Communalite t = [1, 1]"
    by (intro nth_equalityI) (auto simp: less_Suc_eq numeral_2_eq_2)
  with t show "\<exists>t. communalites acp_std = Inr t \<and> Communalite t = [1, 1]" by blast
next
  have KN: "length (components pca_rot) = n_features_in pca_rot"
    and cols: "length (columns X_rot) = n_features_in pca_rot"
    and N: "n_features_in pca_rot = 2"
    by (simp_all add: pca_rot_def X_rot_def)
  from communalites_unit [OF wf_acp_rot KN axes_rot basis_rot cols]
  obtain t where t: "communalites acp_rot = Inr t"
    and c: "Communalite t =
        map (\<lambda>j. np_round 4 (sample_cov X_rot j j)) [0..<n_features_in pca_rot]"
    by blast
  have "np_round 4 (52/25) = 52/25" "np_round 4 (73/25) = 73/25"
    by (simp_all add: np_round_def round_half_even_def)
  with c have "Communalite t = [52/25, 73/25]"
    by (simp add: N upt_rec cov_rot del: upt_Suc)
  with t show "\<exists>t. communalites acp_rot = Inr t \<and> Communalite t = [52/25, 73/25]" by blast
qed

subsection \<open>Fitting\<close>















lemma wf_pca_rot: "wf_pca pca_rot"
  by (simp add: wf_pca_def pca_rot_def)










subsection \<open>Interpretation\<close>

lemma digit_char_inj: "a < 10 \<Longrightarrow> b < 10 \<Longrightarrow> digit_char a = digit_char b \<Longrightarrow> a = b"
proof -
  assume a: "a < 10" and b: "b < 10" and e: "digit_char a = digit_char b"
  have *: "\<And>n::nat. n < 10 \<Longrightarrow> n \<in> {0,1,2,3,4,5,6,7,8,9}" by auto
  from *[OF a] *[OF b] e show ?thesis
    by (auto simp: digit_char_def)
qed

lemma str_nat_ne: "str_nat n \<noteq> []"
  by (subst str_nat.simps) simp

lemma str_nat_inj: "str_nat n = str_nat m \<Longrightarrow> n = m"
proof (induction n arbitrary: m rule: str_nat.induct)
  case (1 n)
  show ?case
  proof (cases "n < 10")
    case True
    show ?thesis
    proof (cases "m < 10")
      case mlt: True
      from "1.prems" True mlt have "digit_char n = digit_char m"
        by (simp add: str_nat.simps)
      then show ?thesis using True mlt by (rule_tac digit_char_inj)
    next
      case False
      from "1.prems" True False have "[digit_char n] = str_nat (m div 10) @ [digit_char (m mod 10)]"
        by (simp add: str_nat.simps [of n] str_nat.simps [of m])
      then have "str_nat (m div 10) = []" by simp
      with str_nat_ne show ?thesis by blast
    qed
  next
    case False
    show ?thesis
    proof (cases "m < 10")
      case True
      from "1.prems" True False have "str_nat (n div 10) @ [digit_char (n mod 10)] = [digit_char m]"
        by (simp add: str_nat.simps [of n] str_nat.simps [of m])
      then have "str_nat (n div 10) = []" by simp
      with str_nat_ne show ?thesis by blast
    next
      case mge: False
      from "1.prems" False mge have
        "str_nat (n div 10) @ [digit_char (n mod 10)] = str_nat (m div 10) @ [digit_char (m mod 10)]"
        by (simp add: str_nat.simps [of n] str_nat.simps [of m])
      then have a: "str_nat (n div 10) = str_nat (m div 10)"
        and b: "digit_char (n mod 10) = digit_char (m mod 10)" by simp_all
      from "1.IH" [OF False a] have "n div 10 = m div 10" .
      moreover from b have "n mod 10 = m mod 10"
        by (rule_tac digit_char_inj) simp_all
      ultimately show ?thesis by (metis div_mult_mod_eq)
    qed
  qed
qed

lemma cp_label_inj: "cp_label i = cp_label j \<Longrightarrow> i = j"
  by (auto simp: cp_label_def dest: str_nat_inj)

lemma inj_cp_label: "inj cp_label"
  by (rule injI) (rule cp_label_inj)

lemma distinct_cp_labels: "distinct (map cp_label [0..<K])"
  by (simp add: distinct_map inj_on_def cp_label_inj)

lemma first_index_nth_distinct:
  "distinct xs \<Longrightarrow> i < length xs \<Longrightarrow> first_index (xs ! i) xs = i"
proof (induction xs arbitrary: i)
  case Nil
  then show ?case by simp
next
  case (Cons x xs)
  then show ?case by (cases i) auto
qed

lemma first_index_cp_label: "k < K \<Longrightarrow> first_index (cp_label k) (map cp_label [0..<K]) = k"
  using first_index_nth_distinct [OF distinct_cp_labels, of k K] by simp

lemma loading_matrix_column:
  "k < length (components p) \<Longrightarrow> map (\<lambda>row. row ! k) (loading_matrix p) = loading_column p k"
  by (simp add: loading_matrix_def loading_column_def)

lemma getitem_col_loadings:
  assumes "k < length (components p)"
  shows "getitem_col \<lparr>index = names, columns = map cp_label [0..<length (components p)],
                      vals = loading_matrix p\<rparr> (cp_label k)
         = Inr (zip names (loading_column p k))"
  using assms
  by (simp add: getitem_col_def first_index_cp_label loading_matrix_column)

lemma head_nonneg: "0 \<le> n \<Longrightarrow> head n xs = take (nat n) xs"
  by (simp add: head_def)

lemma set_head: "set (head n xs) \<subseteq> set xs"
  by (auto simp: head_def dest: in_set_takeD)

lemma map_fst_series_abs: "map fst (series_abs s) = map fst s"
  by (simp add: series_abs_def case_prod_unfold)

lemma sorts_descending_mset: "sorts_descending srt \<Longrightarrow> mset (srt s) = mset s"
  by (simp add: sorts_descending_def)

lemma sorts_descending_set: "sorts_descending srt \<Longrightarrow> set (srt s) = set s"
  by (metis sorts_descending_mset set_mset_mset)

lemma sorts_descending_sorted:
  "sorts_descending srt \<Longrightarrow> sorted_wrt (\<lambda>a b. snd b \<le> snd a) (srt s)"
  by (simp add: sorts_descending_def)

lemma interpreter_body_ok:
  assumes wf: "wf_acp self p" and names: "noms_variables self = Some names"
    and srt: "sorts_descending srt" and k: "k < length (components p)"
  shows "interpreter_body srt self
           \<lparr>index = names, columns = map cp_label [0..<length (components p)],
            vals = loading_matrix p\<rparr> n_top k (cp_label k)
         = Inr \<lparr>variables_dominantes =
                  to_dict (concat (map (\<lambda>l. filter (\<lambda>(l', v). l' = l) (zip names (loading_column p k)))
                     (map fst (head n_top (srt (series_abs (zip names (loading_column p k)))))))),
                variance_expliquee = explained_variance_ratio p ! k * 100\<rparr>"
proof -
  let ?L = "\<lparr>index = names, columns = map cp_label [0..<length (components p)],
            vals = loading_matrix p\<rparr>"
  let ?col = "zip names (loading_column p k)"
  from wf names have len: "length names = n_features_in p"
    and r: "length (explained_variance_ratio p) = length (components p)"
    by (simp_all add: wf_acp_def wf_pca_def)
  have fstcol: "map fst ?col = names"
    using len by (simp add: loading_column_def)
  have "set (map fst (head n_top (srt (series_abs ?col)))) \<subseteq> fst ` set (srt (series_abs ?col))"
    using set_head [of n_top "srt (series_abs ?col)"] by auto
  also have "\<dots> = fst ` set (series_abs ?col)"
    by (simp add: sorts_descending_set [OF srt])
  also have "\<dots> = set (map fst (series_abs ?col))" by simp
  also have "\<dots> = set names" by (simp only: map_fst_series_abs fstcol)
  finally have sub: "set (map fst (head n_top (srt (series_abs ?col)))) \<subseteq> set (index ?L)"
    by simp
  show ?thesis
    using sub k r
    by (simp add: interpreter_body_def getitem_col_loadings [OF k] loc_col_def
        fitted_attrs_wf [OF wf])
qed

lemma dict_set_new: "k \<notin> fst ` set d \<Longrightarrow> dict_set k v d = d @ [(k, v)]"
  by (induction d) auto

lemma interpreter_loop_append:
  assumes "\<And>i cp. (i, cp) \<in> set ps \<Longrightarrow> interpreter_body srt self L n i cp = Inr (E i cp)"
    and "distinct (map snd ps)"
    and "snd ` set ps \<inter> fst ` set acc = {}"
  shows "interpreter_loop srt self L n ps acc = Inr (acc @ map (\<lambda>(i, cp). (cp, E i cp)) ps)"
  using assms
proof (induction ps arbitrary: acc)
  case Nil
  then show ?case by simp
next
  case (Cons a ps)
  obtain i cp where a: "a = (i, cp)" by (cases a)
  from Cons.prems(1) [of i cp] a have body: "interpreter_body srt self L n i cp = Inr (E i cp)"
    by simp
  from Cons.prems(3) a have new: "cp \<notin> fst ` set acc" by auto
  have step: "dict_set cp (E i cp) acc = acc @ [(cp, E i cp)]"
    by (rule dict_set_new [OF new])
  have "interpreter_loop srt self L n ps (acc @ [(cp, E i cp)])
        = Inr ((acc @ [(cp, E i cp)]) @ map (\<lambda>(i, cp). (cp, E i cp)) ps)"
  proof (rule Cons.IH)
    show "interpreter_body srt self L n j c = Inr (E j c)" if "(j, c) \<in> set ps" for j c
      using Cons.prems(1) [of j c] that by simp
    show "distinct (map snd ps)" using Cons.prems(2) by simp
    show "snd ` set ps \<inter> fst ` set (acc @ [(cp, E i cp)]) = {}"
      using Cons.prems(2,3) a by auto
  qed
  then show ?case using a body step by simp
qed

lemma enumerate_take_labels:
  "enumerate 0 (take 5 (map cp_label [0..<K])) = map (\<lambda>k. (k, cp_label k)) [0..<min K 5]"
proof -
  have "take 5 (map cp_label [0..<K]) = map cp_label [0..<min K 5]"
    by (simp add: take_map min_def)
  then show ?thesis
    by (simp add: enumerate_eq_zip zip_map2 zip_same_conv_map)
qed

lemma interpreter_wf:
  assumes wf: "wf_acp self p" and names: "noms_variables self = Some names"
    and srt: "sorts_descending srt"
  shows "interpreter srt self n_top =
         Inr (map (\<lambda>k. (cp_label k, dominant_entry srt p names n_top k))
                  [0..<min (length (components p)) 5])"
proof -
  let ?K = "length (components p)"
  let ?L = "\<lparr>index = names, columns = map cp_label [0..<?K], vals = loading_matrix p\<rparr>"
  let ?ps = "map (\<lambda>k. (k, cp_label k)) [0..<min ?K 5]"
  have loop: "interpreter_loop srt self ?L n_top ?ps []
        = Inr ([] @ map (\<lambda>(i, cp). (cp, dominant_entry srt p names n_top i)) ?ps)"
  proof (rule interpreter_loop_append)
    fix i cp assume "(i, cp) \<in> set ?ps"
    then have i: "i < ?K" and cp: "cp = cp_label i" by auto
    show "interpreter_body srt self ?L n_top i cp = Inr (dominant_entry srt p names n_top i)"
      unfolding cp dominant_entry_def by (rule interpreter_body_ok [OF wf names srt i])
  next
    have "map snd ?ps = map cp_label [0..<min ?K 5]" by (simp add: comp_def)
    then show "distinct (map snd ?ps)" by (simp only: distinct_cp_labels)
  next
    show "snd ` set ?ps \<inter> fst ` set [] = {}" by simp
  qed
  have "interpreter srt self n_top = interpreter_loop srt self ?L n_top ?ps []"
    by (simp add: interpreter_def loadings_wf [OF wf names] enumerate_take_labels)
  with loop show ?thesis by (simp add: comp_def)
qed

lemma filter_label_distinct:
  "distinct (map fst col) \<Longrightarrow> l \<in> fst ` set col \<Longrightarrow>
   filter (\<lambda>(l', v). l' = l) col = [(l, the (map_of col l))]"
proof (induction col)
  case Nil
  then show ?case by simp
next
  case (Cons a col)
  obtain l' v where a: "a = (l', v)" by (cases a)
  show ?case
  proof (cases "l' = l")
    case True
    with Cons.prems a have "l \<notin> fst ` set col" by auto
    then have "filter (\<lambda>(l', v). l' = l) col = []"
      by (force simp: filter_empty_conv)
    with True a show ?thesis by simp
  next
    case False
    with Cons a show ?thesis by auto
  qed
qed

lemma loc_rows_distinct:
  assumes "distinct (map fst col)" and "set ls \<subseteq> fst ` set col"
  shows "concat (map (\<lambda>l. filter (\<lambda>(l', v). l' = l) col) ls) = map (\<lambda>l. (l, the (map_of col l))) ls"
  using assms(2)
proof (induction ls)
  case Nil
  then show ?case by simp
next
  case (Cons l ls)
  then show ?case by (simp add: filter_label_distinct [OF assms(1)])
qed

lemma fold_dict_set_distinct:
  "distinct (map fst s) \<Longrightarrow> fst ` set s \<inter> fst ` set acc = {} \<Longrightarrow>
   fold (\<lambda>(k, v) d. dict_set k v d) s acc = acc @ s"
proof (induction s arbitrary: acc)
  case Nil
  then show ?case by simp
next
  case (Cons a s)
  obtain k v where a: "a = (k, v)" by (cases a)
  from Cons.prems a have new: "k \<notin> fst ` set acc" by auto
  have "fold (\<lambda>(k, v) d. dict_set k v d) s (acc @ [(k, v)]) = (acc @ [(k, v)]) @ s"
  proof (rule Cons.IH)
    show "distinct (map fst s)" using Cons.prems(1) by simp
    show "fst ` set s \<inter> fst ` set (acc @ [(k, v)]) = {}"
      using Cons.prems a by auto
  qed
  then show ?case using a by (simp add: dict_set_new [OF new])
qed

lemma to_dict_distinct: "distinct (map fst s) \<Longrightarrow> to_dict s = s"
  using fold_dict_set_distinct [of s "[]"] by (simp add: to_dict_def)

lemma signed_abs:
  assumes "distinct (map fst col)" and "(l, v) \<in> set col"
  shows "signed col (l, \<bar>v\<bar>) = (l, v)"
  using assms by (simp add: signed_def)

lemma signed_series_abs:
  assumes "distinct (map fst col)"
  shows "map (signed col) (series_abs col) = col"
proof -
  have "map (signed col) (map (\<lambda>(l, v). (l, \<bar>v\<bar>)) col) = map (\<lambda>x. x) col"
    unfolding map_map
  proof (rule map_cong [OF refl])
    fix x assume "x \<in> set col"
    then show "(signed col \<circ> (\<lambda>(l, v). (l, \<bar>v\<bar>))) x = x"
      using signed_abs [OF assms, of "fst x" "snd x"] by (simp add: case_prod_unfold)
  qed
  then show ?thesis by (simp add: series_abs_def)
qed

lemma abs_snd_signed:
  assumes "distinct (map fst col)" and "x \<in> set (series_abs col)"
  shows "\<bar>snd (signed col x)\<bar> = snd x"
proof -
  from assms(2) obtain l v where lv: "(l, v) \<in> set col" and x: "x = (l, \<bar>v\<bar>)"
    by (auto simp: series_abs_def)
  with signed_abs [OF assms(1) lv] show ?thesis by simp
qed

lemma dominant_full:
  assumes d: "distinct (map fst col)" and srt: "sorts_descending srt"
  defines "full \<equiv> map (signed col) (srt (series_abs col))"
  shows "mset full = mset col"
    and "sorted_wrt (\<lambda>a b. \<bar>snd b\<bar> \<le> \<bar>snd a\<bar>) full"
    and "sort_stable srt \<Longrightarrow> filter (\<lambda>y. \<bar>snd y\<bar> = v) full = filter (\<lambda>y. \<bar>snd y\<bar> = v) col"
    and "distinct (map fst full)"
    and "map (\<lambda>l. (l, the (map_of col l))) (map fst (take n (srt (series_abs col)))) = take n full"
proof -
  let ?tri = "srt (series_abs col)"
  have set_tri: "set ?tri = set (series_abs col)" by (rule sorts_descending_set [OF srt])
  have "mset full = image_mset (signed col) (mset ?tri)" by (simp add: full_def)
  also have "\<dots> = image_mset (signed col) (mset (series_abs col))"
    by (simp add: sorts_descending_mset [OF srt])
  also have "\<dots> = mset (map (signed col) (series_abs col))" by simp
  also have "\<dots> = mset col" by (simp only: signed_series_abs [OF d])
  finally show m: "mset full = mset col" .
  have "sorted_wrt (\<lambda>a b. \<bar>snd (signed col b)\<bar> \<le> \<bar>snd (signed col a)\<bar>) ?tri"
  proof (rule sorted_wrt_mono_rel [OF _ sorts_descending_sorted [OF srt]])
    fix a b assume "a \<in> set ?tri" "b \<in> set ?tri" "snd b \<le> snd a"
    then show "\<bar>snd (signed col b)\<bar> \<le> \<bar>snd (signed col a)\<bar>"
      using abs_snd_signed [OF d] set_tri by simp
  qed
  then show "sorted_wrt (\<lambda>a b. \<bar>snd b\<bar> \<le> \<bar>snd a\<bar>) full"
    by (simp add: full_def sorted_wrt_map)
  show "filter (\<lambda>y. \<bar>snd y\<bar> = v) full = filter (\<lambda>y. \<bar>snd y\<bar> = v) col" if st: "sort_stable srt"
  proof -
    have "filter (\<lambda>y. \<bar>snd y\<bar> = v) full = map (signed col) (filter (\<lambda>x. \<bar>snd (signed col x)\<bar> = v) ?tri)"
      by (simp add: full_def filter_map comp_def)
    also have "filter (\<lambda>x. \<bar>snd (signed col x)\<bar> = v) ?tri = filter (\<lambda>x. snd x = v) ?tri"
      by (rule filter_cong [OF refl]) (simp add: abs_snd_signed [OF d] set_tri)
    also have "\<dots> = filter (\<lambda>x. snd x = v) (series_abs col)"
      using st by (simp add: sort_stable_def)
    also have "\<dots> = filter (\<lambda>x. \<bar>snd (signed col x)\<bar> = v) (series_abs col)"
      by (rule filter_cong [OF refl]) (simp add: abs_snd_signed [OF d])
    also have "map (signed col) \<dots> = filter (\<lambda>y. \<bar>snd y\<bar> = v) (map (signed col) (series_abs col))"
      by (simp add: filter_map comp_def)
    also have "\<dots> = filter (\<lambda>y. \<bar>snd y\<bar> = v) col"
      by (simp only: signed_series_abs [OF d])
    finally show ?thesis .
  qed
  have "mset (map fst full) = mset (map fst col)"
    using m by (metis mset_map)
  then show "distinct (map fst full)"
    using d by (metis mset_eq_imp_distinct_iff)
  show "map (\<lambda>l. (l, the (map_of col l))) (map fst (take n ?tri)) = take n full"
    by (simp add: full_def take_map signed_def comp_def)
qed

lemma sorted_desc_rev_sort_key:
  "sorted_wrt (\<lambda>a b. snd b \<le> (snd a :: real)) (rev (sort_key snd s))"
proof -
  have "sorted (map snd (sort_key snd s))" by (rule sorted_sort_key)
  then have "sorted_wrt (\<lambda>x y. snd x \<le> snd y) (sort_key snd s)"
    by (simp only: sorted_map)
  then show ?thesis by (simp only: sorted_wrt_rev)
qed

lemma sorts_descending_stable: "sorts_descending sort_values_stable"
  unfolding sorts_descending_def sort_values_stable_def
proof (intro allI conjI)
  fix s :: series
  show "mset (rev (sort_key snd (rev s))) = mset s" by simp
  show "sorted_wrt (\<lambda>a b. snd b \<le> snd a) (rev (sort_key snd (rev s)))"
    by (rule sorted_desc_rev_sort_key)
qed

lemma length_le4_cases:
  assumes "length (s::'a list) \<le> 4"
  obtains "s = []" | a where "s = [a]" | a b where "s = [a, b]"
    | a b c where "s = [a, b, c]" | a b c d where "s = [a, b, c, d]"
proof -
  from assms consider "length s = 0" | "length s = 1" | "length s = 2" | "length s = 3"
    | "length s = 4" by linarith
  then show ?thesis
  proof cases
    case 1 then show ?thesis using that(1) by simp
  next
    case 2 then show ?thesis using that(2) by (auto simp: length_Suc_conv)
  next
    case 3 then show ?thesis using that(3) by (auto simp: length_Suc_conv numeral_2_eq_2)
  next
    case 4 then show ?thesis using that(4) by (auto simp: length_Suc_conv numeral_3_eq_3)
  next
    case 5
    then obtain a b c d where "s = [a, b, c, d]"
      by (auto simp: length_Suc_conv eval_nat_numeral)
    then show ?thesis using that(5) by simp
  qed
qed

lemma cmp_exchange_4:
  "cmp_exchange 0 (Suc 0) [a, b, c, d] = (if lane_less b a then [b, a, c, d] else [a, b, c, d])"
  "cmp_exchange 2 3 [a, b, c, d] = (if lane_less d c then [a, b, d, c] else [a, b, c, d])"
  "cmp_exchange 0 3 [a, b, c, d] = (if lane_less d a then [d, b, c, a] else [a, b, c, d])"
  "cmp_exchange (Suc 0) 2 [a, b, c, d] = (if lane_less c b then [a, c, b, d] else [a, b, c, d])"
  by (simp_all add: cmp_exchange_def numeral_2_eq_2 numeral_3_eq_3)

lemma replicate_lanes:
  "replicate 4 x = [x, x, x, x]" "replicate 3 x = [x, x, x]" "replicate 2 x = [x, x]"
  by (simp_all add: numeral_eq_Suc)

lemma lane_less_simps:
  "lane_less None b = False"
  "lane_less (Some x) None = True"
  "lane_less (Some x) (Some y) = (snd x < snd y)"
  by (simp_all add: lane_less_def)

lemma argsort_simd4_sorts:
  assumes "length s \<le> 4"
  shows "mset (argsort_simd4 s) = mset s \<and>
         sorted_wrt (\<lambda>a b. snd a \<le> snd b) (argsort_simd4 s)"
  using assms
proof (cases s rule: length_le4_cases)
  case 1
  then show ?thesis
    by (simp add: argsort_simd4_def Let_def cmp_exchange_4 lane_less_simps replicate_lanes)
next
  case (2 a)
  then show ?thesis
    by (simp add: argsort_simd4_def Let_def cmp_exchange_4 lane_less_simps replicate_lanes)
next
  case (3 a b)
  then show ?thesis
    by (auto simp: argsort_simd4_def Let_def cmp_exchange_4 lane_less_simps replicate_lanes)
next
  case (4 a b c)
  then show ?thesis
    by (auto simp: argsort_simd4_def Let_def cmp_exchange_4 lane_less_simps replicate_lanes)
next
  case (5 a b c d)
  then show ?thesis
    by (auto simp: argsort_simd4_def Let_def cmp_exchange_4 lane_less_simps replicate_lanes)
qed

lemma sorts_descending_simd4: "sorts_descending sort_values_simd4"
  unfolding sorts_descending_def
proof (intro allI conjI)
  fix s :: series
  show "mset (sort_values_simd4 s) = mset s"
  proof (cases "length s \<le> 4")
    case True
    then have "length (rev s) \<le> 4" by simp
    from argsort_simd4_sorts [OF this] True show ?thesis
      by (simp add: sort_values_simd4_def)
  next
    case False
    then show ?thesis by (simp add: sort_values_simd4_def sort_values_stable_def)
  qed
  show "sorted_wrt (\<lambda>a b. snd b \<le> snd a) (sort_values_simd4 s)"
  proof (cases "length s \<le> 4")
    case True
    then have "length (rev s) \<le> 4" by simp
    from argsort_simd4_sorts [OF this]
    have "sorted_wrt (\<lambda>a b. snd a \<le> snd b) (argsort_simd4 (rev s))" by simp
    then have "sorted_wrt (\<lambda>a b. snd b \<le> snd a) (rev (argsort_simd4 (rev s)))"
      by (simp only: sorted_wrt_rev)
    with True show ?thesis by (simp add: sort_values_simd4_def)
  next
    case False
    then show ?thesis
      using sorts_descending_stable by (simp add: sort_values_simd4_def sorts_descending_def)
  qed
qed

lemma simd4_quad:
  "sort_values_simd4 [(Str ''A'', 1/4), (Str ''B'', 1/4), (Str ''C'', 1), (Str ''D'', 1)] =
     [(Str ''D'', 1), (Str ''C'', 1), (Str ''B'', 1/4), (Str ''A'', 1/4)]"
  by (simp add: sort_values_simd4_def argsort_simd4_def cmp_exchange_def lane_less_def)

lemma simd4_tie:
  "sort_values_simd4 [(Str ''A'', 2/3), (Str ''B'', 2/3), (Str ''C'', 1/3)] =
     [(Str ''A'', 2/3), (Str ''B'', 2/3), (Str ''C'', 1/3)]"
  by (simp add: sort_values_simd4_def argsort_simd4_def cmp_exchange_def lane_less_def)

lemma simd4_dom:
  "sort_values_simd4 [(Str ''A'', 4/5), (Str ''B'', 9/10), (Str ''C'', 1/10)] =
     [(Str ''B'', 9/10), (Str ''A'', 4/5), (Str ''C'', 1/10)]"
  by (simp add: sort_values_simd4_def argsort_simd4_def cmp_exchange_def lane_less_def)

lemma stable_sort_values_stable: "sort_stable sort_values_stable"
proof -
  have "filter P (rev (sort_key snd (rev s))) = filter P s"
    if "P = (\<lambda>y. snd y = v)" for P :: "label \<times> real \<Rightarrow> bool" and s v
  proof -
    have "filter P (rev (sort_key snd (rev s))) = rev (filter P (sort_key snd (rev s)))"
      by (simp only: rev_filter)
    also have "filter P (sort_key snd (rev s)) = filter P (rev s)"
      unfolding that by (rule sort_key_stable)
    also have "rev (filter P (rev s)) = filter P s"
      by (simp only: rev_filter rev_rev_ident)
    finally show ?thesis .
  qed
  then show ?thesis by (simp add: sort_stable_def sort_values_stable_def)
qed

lemma wf_acp_six: "wf_acp acp_six pca_six"
  by (simp add: wf_acp_def wf_pca_def acp_six_def pca_six_def)

lemma wf_acp_dom: "wf_acp acp_dom pca_dom"
  by (simp add: wf_acp_def wf_pca_def acp_dom_def pca_dom_def)

lemma cp_label_0: "cp_label 0 = Str ''CP1''"
  by (simp add: cp_label_def str_nat.simps digit_char_def)

lemma cp_labels_2: "map cp_label [0..<2] = [Str ''CP1'', Str ''CP2'']"
  by (simp add: upt_rec cp_label_def str_nat.simps digit_char_def)

lemma cp_labels_5:
  "map cp_label [0..<5] = [Str ''CP1'', Str ''CP2'', Str ''CP3'', Str ''CP4'', Str ''CP5'']"
  by (simp add: upt_rec cp_label_def str_nat.simps digit_char_def)

lemma interpreter_single_component:
  assumes "wf_acp self p" and "noms_variables self = Some names"
    and "sorts_descending sort_values" and "length (components p) = 1"
  shows "interpreter sort_values self n_top =
         Inr [(Str ''CP1'', dominant_entry sort_values p names n_top 0)]"
  using assms(4) by (simp add: interpreter_wf [OF assms(1-3)] cp_label_0)

lemma wf_acp_quad: "wf_acp acp_quad pca_quad"
  by (simp add: wf_acp_def wf_pca_def acp_quad_def pca_quad_def)

lemma wf_acp_dup: "wf_acp acp_dup pca_dup"
  by (simp add: wf_acp_def wf_pca_def acp_dup_def pca_dup_def)

lemma entry_quad:
  "dominant_entry sort_values_simd4 pca_quad [Str ''A'', Str ''B'', Str ''C'', Str ''D''] 2 0
     = \<lparr>variables_dominantes = [(Str ''D'', - 1), (Str ''C'', 1)],
        variance_expliquee = 425 / 8\<rparr>"
proof -
  have col: "loading_column pca_quad 0 = [1/4, 1/4, 1, - 1]"
    by (simp add: loading_column_def pca_quad_def upt_rec)
  show ?thesis
    unfolding dominant_entry_def col
    by (simp add: series_abs_def simd4_quad head_def to_dict_def pca_quad_def)
qed

lemma entry_dom_simd4:
  "dominant_entry sort_values_simd4 pca_dom [Str ''A'', Str ''B'', Str ''C''] 2 0
     = \<lparr>variables_dominantes = [(Str ''B'', - 0.9), (Str ''A'', 0.8)],
        variance_expliquee = 146 / 3\<rparr>"
proof -
  have col: "loading_column pca_dom 0 = [4/5, - (9/10), 1/10]"
    by (simp add: loading_column_def pca_dom_def upt_rec)
  show ?thesis
    unfolding dominant_entry_def col
    by (simp add: series_abs_def simd4_dom head_def to_dict_def pca_dom_def)
qed

text \<open>
  Claim C7, as amended. The dominant variables of component \<open>k\<close> are the entry
  \<open>variables_dominantes\<close> that \<open>interpreter\<close> stores under the label of column \<open>k\<close>, for
  each of the first five components. On a fitted object with pairwise distinct variable
  names, for a sort that orders by descending value and \<open>0 \<le> n_top \<le> N\<close>, that entry is the
  first \<open>n_top\<close> pairs of a list \<open>full\<close> which is a rearrangement of the \<open>N\<close> pairs
  (variable name, signed loading) of column \<open>k\<close> in descending order of absolute loading: it
  has length \<open>n_top\<close> and keeps the sign of every loading. Variables with the same absolute
  loading appear in declaration order if the sort is stable; the source does not ask
  pandas for a stable sort. (A component beyond the fifth has no entry at all.)
\<close>

theorem interpreter_dominant_variables:
  assumes wf: "wf_acp self p" and names: "noms_variables self = Some names"
    and dist: "distinct names"
    and srt: "sorts_descending sort_values"
    and k: "k < length (components p)" "k < 5"
    and n: "0 \<le> n_top" "n_top \<le> int (n_features_in p)"
  shows "\<exists>d e full. interpreter sort_values self n_top = Inr d \<and> d ! k = (cp_label k, e) \<and>
           variables_dominantes e = take (nat n_top) full \<and>
           length (variables_dominantes e) = nat n_top \<and>
           mset full = mset (zip names (loading_column p k)) \<and>
           sorted_wrt (\<lambda>a b. \<bar>snd b\<bar> \<le> \<bar>snd a\<bar>) full \<and>
           (sort_stable sort_values \<longrightarrow>
              (\<forall>v. filter (\<lambda>y. \<bar>snd y\<bar> = v) full =
                   filter (\<lambda>y. \<bar>snd y\<bar> = v) (zip names (loading_column p k))))"
proof -
  let ?col = "zip names (loading_column p k)"
  let ?tri = "sort_values (series_abs ?col)"
  define full where "full = map (signed ?col) ?tri"
  define d where "d = map (\<lambda>k. (cp_label k, dominant_entry sort_values p names n_top k))
                  [0..<min (length (components p)) 5]"
  from wf names have len: "length names = n_features_in p"
    by (simp add: wf_acp_def)
  then have fstcol: "map fst ?col = names"
    by (simp add: loading_column_def)
  with dist have dcol: "distinct (map fst ?col)" by simp
  note F = dominant_full [OF dcol srt, folded full_def]
  have lenfull: "length full = n_features_in p"
    using mset_eq_length [OF F(1)] len by (simp add: loading_column_def)
  have sub: "set (map fst (take (nat n_top) ?tri)) \<subseteq> fst ` set ?col"
  proof -
    have "set (map fst (take (nat n_top) ?tri)) \<subseteq> fst ` set ?tri"
      by (auto dest: in_set_takeD)
    also have "\<dots> = fst ` set (series_abs ?col)"
      by (simp add: sorts_descending_set [OF srt])
    also have "\<dots> = set (map fst (series_abs ?col))" by simp
    also have "\<dots> = fst ` set ?col" by (simp only: map_fst_series_abs) simp
    finally show ?thesis .
  qed
  have "concat (map (\<lambda>l. filter (\<lambda>(l', v). l' = l) ?col) (map fst (head n_top ?tri)))
        = take (nat n_top) full"
    using loc_rows_distinct [OF dcol sub] F(5) [of "nat n_top"] n(1)
    by (simp add: head_nonneg)
  moreover have "distinct (map fst (take (nat n_top) full))"
    using F(4) by (simp add: take_map [symmetric])
  ultimately have vd: "variables_dominantes (dominant_entry sort_values p names n_top k)
        = take (nat n_top) full"
    by (simp add: dominant_entry_def to_dict_distinct)
  have dk: "d ! k = (cp_label k, dominant_entry sort_values p names n_top k)"
    using k by (simp add: d_def)
  have res: "interpreter sort_values self n_top = Inr d"
    unfolding d_def by (rule interpreter_wf [OF wf names srt])
  have lenvd: "length (take (nat n_top) full) = nat n_top"
    using lenfull n by simp
  show ?thesis
    using res dk vd lenvd F(1,2,3) by (intro exI [of _ d] exI [of _ "dominant_entry sort_values p names n_top k"] exI [of _ full]) simp
qed

text \<open>
  The loadings \<open>0.8, -0.9, 0.1\<close> of the variables \<open>A, B, C\<close> with \<open>n_top = 2\<close> give
  \<open>[(B, -0.9), (A, 0.8)]\<close>, with the stable sort and with the default sort.
\<close>

theorem interpreter_dominant_variables_witness:
  "(\<exists>d e. interpreter sort_values_stable acp_dom 2 = Inr d \<and> d ! 0 = (Str ''CP1'', e) \<and>
          length (variables_dominantes e) = 2 \<and>
          variables_dominantes e = [(Str ''B'', - 0.9), (Str ''A'', 0.8)]) \<and>
   interpreter sort_values_simd4 acp_dom 2 =
     Inr [(Str ''CP1'', \<lparr>variables_dominantes = [(Str ''B'', - 0.9), (Str ''A'', 0.8)],
                          variance_expliquee = 146 / 3\<rparr>)]"
proof -
  have n: "noms_variables acp_dom = Some [Str ''A'', Str ''B'', Str ''C'']"
    by (simp add: acp_dom_def)
  have K: "length (components pca_dom) = 1" by (simp add: pca_dom_def)
  have ds: "dominant_entry sort_values_stable pca_dom [Str ''A'', Str ''B'', Str ''C''] 2 0
      = \<lparr>variables_dominantes = [(Str ''B'', - 0.9), (Str ''A'', 0.8)],
         variance_expliquee = 146 / 3\<rparr>"
    by (simp add: dominant_entry_def loading_column_def pca_dom_def upt_rec series_abs_def
        sort_values_stable_def head_def to_dict_def)
  have val: "interpreter sort_values_stable acp_dom 2 =
     Inr [(Str ''CP1'', \<lparr>variables_dominantes = [(Str ''B'', - 0.9), (Str ''A'', 0.8)],
                          variance_expliquee = 146 / 3\<rparr>)]"
    by (simp only: interpreter_single_component [OF wf_acp_dom n sorts_descending_stable K] ds)
  have k: "0 < length (components pca_dom)" "(0::nat) < 5" by (simp_all add: K)
  have b: "(0::int) \<le> 2" "2 \<le> int (n_features_in pca_dom)" by (simp_all add: pca_dom_def)
  have dist: "distinct [Str ''A'', Str ''B'', Str ''C'']" by simp
  from interpreter_dominant_variables [OF wf_acp_dom n dist sorts_descending_stable k b]
  obtain d e where d: "interpreter sort_values_stable acp_dom 2 = Inr d"
    and e: "d ! 0 = (cp_label 0, e)" and len: "length (variables_dominantes e) = nat 2"
    by blast
  from d val have dval: "d = [(Str ''CP1'',
      \<lparr>variables_dominantes = [(Str ''B'', - 0.9), (Str ''A'', 0.8)],
       variance_expliquee = 146 / 3\<rparr>)]"
    by simp
  from e have "e = snd (d ! 0)" by simp
  then have "e = \<lparr>variables_dominantes = [(Str ''B'', - 0.9), (Str ''A'', 0.8)],
                  variance_expliquee = 146 / 3\<rparr>"
    by (simp only: dval nth_Cons_0 snd_conv)
  then have "variables_dominantes e = [(Str ''B'', - 0.9), (Str ''A'', 0.8)]" by simp
  moreover from e have "d ! 0 = (Str ''CP1'', e)" by (simp only: cp_label_0)
  moreover from len have "length (variables_dominantes e) = 2" by simp
  ultimately have "\<exists>d e. interpreter sort_values_stable acp_dom 2 = Inr d \<and>
          d ! 0 = (Str ''CP1'', e) \<and> length (variables_dominantes e) = 2 \<and>
          variables_dominantes e = [(Str ''B'', - 0.9), (Str ''A'', 0.8)]"
    using d by blast
  moreover have "interpreter sort_values_simd4 acp_dom 2 =
     Inr [(Str ''CP1'', \<lparr>variables_dominantes = [(Str ''B'', - 0.9), (Str ''A'', 0.8)],
                          variance_expliquee = 146 / 3\<rparr>)]"
    by (simp only: interpreter_single_component [OF wf_acp_dom n sorts_descending_simd4 K]
        entry_dom_simd4)
  ultimately show ?thesis by (rule conjI)
qed

text \<open>
  Claim C7 as stated fails in two ways. With the loadings \<open>0.25, 0.25, 1, -1\<close> of
  \<open>A, B, C, D\<close> and \<open>n_top = 2\<close>, the default sort, which does order by descending value,
  yields \<open>D\<close> before \<open>C\<close>: the later variable wins the tie. With two variables both named \<open>A\<close>
  (loadings \<open>4/5, 3/5\<close>) and \<open>n_top = 2\<close>, even the stable sort yields one pair instead of two,
  \<open>(A, 3/5)\<close>: \<^verbatim>\<open>L.loc\<close> returns every row named \<open>A\<close> for each requested \<open>A\<close> and \<^verbatim>\<open>to_dict\<close>
  keeps the last value of a repeated key.
\<close>

theorem interpreter_dominant_variables_counterexample:
  "sorts_descending sort_values_simd4 \<and>
   interpreter sort_values_simd4 acp_quad 2 =
     Inr [(Str ''CP1'', \<lparr>variables_dominantes = [(Str ''D'', - 1), (Str ''C'', 1)],
                          variance_expliquee = 425 / 8\<rparr>)] \<and>
   sorts_descending sort_values_stable \<and>
   interpreter sort_values_stable acp_dup 2 =
     Inr [(Str ''CP1'', \<lparr>variables_dominantes = [(Str ''A'', 3/5)],
                          variance_expliquee = 50\<rparr>)]"
proof (intro conjI)
  show "sorts_descending sort_values_simd4" by (rule sorts_descending_simd4)
  show "sorts_descending sort_values_stable" by (rule sorts_descending_stable)
  have nq: "noms_variables acp_quad = Some [Str ''A'', Str ''B'', Str ''C'', Str ''D'']"
    by (simp add: acp_quad_def)
  have Kq: "length (components pca_quad) = 1" by (simp add: pca_quad_def)
  show "interpreter sort_values_simd4 acp_quad 2 =
     Inr [(Str ''CP1'', \<lparr>variables_dominantes = [(Str ''D'', - 1), (Str ''C'', 1)],
                          variance_expliquee = 425 / 8\<rparr>)]"
    by (simp only: interpreter_single_component [OF wf_acp_quad nq sorts_descending_simd4 Kq]
        entry_quad)
  have nd: "noms_variables acp_dup = Some [Str ''A'', Str ''A'']"
    by (simp add: acp_dup_def)
  have Kd: "length (components pca_dup) = 1" by (simp add: pca_dup_def)
  have ed: "dominant_entry sort_values_stable pca_dup [Str ''A'', Str ''A''] 2 0
      = \<lparr>variables_dominantes = [(Str ''A'', 3/5)], variance_expliquee = 50\<rparr>"
    by (simp add: dominant_entry_def loading_column_def pca_dup_def upt_rec series_abs_def
        sort_values_stable_def head_def to_dict_def)
  show "interpreter sort_values_stable acp_dup 2 =
     Inr [(Str ''CP1'', \<lparr>variables_dominantes = [(Str ''A'', 3/5)],
                          variance_expliquee = 50\<rparr>)]"
    by (simp only: interpreter_single_component [OF wf_acp_dup nd sorts_descending_stable Kd] ed)
qed

text \<open>
  Claim C10. On a fitted object with \<open>K\<close> components, for a sort that orders by descending
  value and for every \<open>n_top\<close>, \<open>interpreter\<close> returns a dict whose keys are the labels of the
  first \<open>min K 5\<close> components, in order, and nothing else.
\<close>

theorem interpreter_first_five:
  assumes wf: "wf_acp self p" and srt: "sorts_descending sort_values"
  shows "\<exists>d. interpreter sort_values self n_top = Inr d \<and>
             map fst d = map cp_label [0..<min (length (components p)) 5] \<and>
             length d = min (length (components p)) 5"
proof -
  from wf obtain names where names: "noms_variables self = Some names"
    by (auto simp: wf_acp_def split: option.splits)
  show ?thesis
    by (simp add: interpreter_wf [OF wf names srt] comp_def)
qed

theorem interpreter_first_five_witness:
  "\<exists>d. interpreter sort_values_stable acp_six 3 = Inr d \<and>
       map fst d = [Str ''CP1'', Str ''CP2'', Str ''CP3'', Str ''CP4'', Str ''CP5'']"
proof -
  from interpreter_first_five [OF wf_acp_six sorts_descending_stable, of 3]
  obtain d where d: "interpreter sort_values_stable acp_six 3 = Inr d"
    and keys: "map fst d = map cp_label [0..<min (length (components pca_six)) 5]"
    by blast
  have "min (length (components pca_six)) 5 = 5" by (simp add: pca_six_def)
  with keys have "map fst d = map cp_label [0..<5]" by (simp only:)
  then have k5: "map fst d = [Str ''CP1'', Str ''CP2'', Str ''CP3'', Str ''CP4'', Str ''CP5'']"
    by (simp only: cp_labels_5)
  show ?thesis by (rule exI [of _ d]) (rule conjI [OF d k5])
qed

subsection \<open>Projection\<close>

lemma sum_list_sum_swap:
  "(\<Sum>row\<leftarrow>rows. sum (g row) A) = (\<Sum>a\<in>A. \<Sum>row\<leftarrow>rows. g row a)"
  for g :: "'r \<Rightarrow> 'i \<Rightarrow> real"
  by (induction rows) (simp_all add: sum.distrib)

lemma sum_list_const_mult: "(\<Sum>row\<leftarrow>rows. c * f row) = c * (\<Sum>row\<leftarrow>rows. f row)"
  for c :: real
  by (induction rows) (simp_all add: algebra_simps)

lemma score_variance:
  assumes ax: "principal_axis X v lam" and rows: "2 \<le> length (vals X)"
  shows "sample_variance (map (\<lambda>row. \<Sum>a\<leftarrow>[0..<length v]. row ! a * v ! a) (vals X)) = lam"
proof -
  let ?rows = "vals X" and ?N = "length v"
  let ?n = "real (length (vals X))"
  let ?s = "\<lambda>row. \<Sum>a = 0..<?N. row ! a * v ! a"
  let ?d = "\<lambda>row a. row ! a - col_mean X a"
  from rows have n0: "?n \<noteq> 0" and n1: "real (length (vals X) - 1) \<noteq> 0" by auto
  have mean: "(\<Sum>row\<leftarrow>?rows. ?s row) / ?n = (\<Sum>a = 0..<?N. col_mean X a * v ! a)"
  proof -
    have "(\<Sum>row\<leftarrow>?rows. ?s row) = (\<Sum>a = 0..<?N. \<Sum>row\<leftarrow>?rows. row ! a * v ! a)"
      by (rule sum_list_sum_swap)
    also have "\<dots> = (\<Sum>a = 0..<?N. (\<Sum>row\<leftarrow>?rows. row ! a) * v ! a)"
      by (simp add: sum_list_mult_const)
    finally show ?thesis
      by (simp add: col_mean_def sum_divide_distrib)
  qed
  have dev: "?s row - (\<Sum>row\<leftarrow>?rows. ?s row) / ?n = (\<Sum>a = 0..<?N. ?d row a * v ! a)" for row
    by (simp add: mean sum_subtractf [symmetric] algebra_simps)
  have sq: "(\<Sum>a = 0..<?N. ?d row a * v ! a) ^ 2 =
            (\<Sum>a = 0..<?N. \<Sum>b = 0..<?N. v ! a * v ! b * (?d row a * ?d row b))" for row
    by (simp add: power2_eq_square sum_product algebra_simps)
  have cov: "(\<Sum>row\<leftarrow>?rows. ?d row a * ?d row b) = real (length (vals X) - 1) * sample_cov X a b"
    for a b
    using n1 by (simp add: sample_cov_def)
  have "(\<Sum>row\<leftarrow>?rows. (?s row - (\<Sum>row\<leftarrow>?rows. ?s row) / ?n) ^ 2)
      = (\<Sum>row\<leftarrow>?rows. \<Sum>a = 0..<?N. \<Sum>b = 0..<?N. v ! a * v ! b * (?d row a * ?d row b))"
    by (simp only: dev sq)
  also have "\<dots> = (\<Sum>a = 0..<?N. \<Sum>row\<leftarrow>?rows. \<Sum>b = 0..<?N.
                      v ! a * v ! b * (?d row a * ?d row b))"
    by (rule sum_list_sum_swap)
  also have "\<dots> = (\<Sum>a = 0..<?N. \<Sum>b = 0..<?N. \<Sum>row\<leftarrow>?rows.
                      v ! a * v ! b * (?d row a * ?d row b))"
    by (simp only: sum_list_sum_swap)
  also have "\<dots> = (\<Sum>a = 0..<?N. \<Sum>b = 0..<?N.
                      v ! a * v ! b * (real (length (vals X) - 1) * sample_cov X a b))"
    by (simp only: sum_list_const_mult cov)
  also have "\<dots> = real (length (vals X) - 1) *
                  (\<Sum>a = 0..<?N. v ! a * (\<Sum>b = 0..<?N. sample_cov X a b * v ! b))"
    by (simp add: sum_distrib_left algebra_simps)
  also have "\<dots> = real (length (vals X) - 1) * (\<Sum>a = 0..<?N. v ! a * (lam * v ! a))"
    using principal_axis_eq [OF ax] by simp
  also have "\<dots> = real (length (vals X) - 1) * (lam * (\<Sum>a = 0..<?N. v ! a * v ! a))"
    by (simp add: sum_distrib_left algebra_simps)
  also have "\<dots> = real (length (vals X) - 1) * lam"
    by (simp only: principal_axis_unit [OF ax] mult_1_right)
  finally have "(\<Sum>row\<leftarrow>?rows. (?s row - (\<Sum>row\<leftarrow>?rows. ?s row) / ?n) ^ 2)
      = real (length (vals X) - 1) * lam" .
  then show ?thesis
    using n1 by (simp add: sample_variance_def o_def sum_list_upt_sum)
qed

text \<open>
  Claim C6. Take a fitted object whose decomposition belongs to the matrix \<open>X\<close> (every
  component is a principal axis of \<open>X\<close> with its eigenvalue), \<open>X\<close> having the fitted number
  of columns and at least two rows. Then \<open>transformer\<close> returns a table of scores with one
  row per observation and the columns \<open>CP1, ..., CPK\<close>, and the sample variance of its
  \<open>k\<close>-th column is the \<open>k\<close>-th eigenvalue, for every \<open>k\<close>. (Floats are reals here, so the
  tolerance of the claim is an equality.)
\<close>

theorem transformer_score_variance:
  assumes fa: "fitted_attrs self = Inr p" and wf: "wf_pca p"
    and cols: "length (columns X) = n_features_in p"
    and rows: "2 \<le> length (vals X)"
    and ax: "principal_axes X p"
  shows "\<exists>S. transformer self X = Inr S \<and>
           columns S = map cp_label [0..<length (components p)] \<and>
           length (vals S) = length (vals X) \<and>
           map (\<lambda>k. sample_variance (map (\<lambda>row. row ! k) (vals S)))
             [0..<length (components p)] = explained_variance p"
proof -
  let ?K = "length (components p)"
  let ?scores = "map (\<lambda>row. map (\<lambda>v. \<Sum>a\<leftarrow>[0..<n_features_in p]. row ! a * v ! a)
                              (components p)) (vals X)"
  let ?S = "\<lparr>index = map (\<lambda>i. Num (int i)) [0..<length ?scores],
             columns = map cp_label [0..<?K], vals = ?scores\<rparr>"
  have S: "transformer self X = Inr ?S"
    using fa cols by (simp add: transformer_def transform_def new_DataFrame_def)
  have var: "sample_variance (map (\<lambda>row. row ! k) ?scores) = explained_variance p ! k"
    if k: "k < ?K" for k
  proof -
    from wf k have len: "length (components p ! k) = n_features_in p"
      by (simp add: wf_pca_def list_all_length)
    from ax k have pa: "principal_axis X (components p ! k) (explained_variance p ! k)"
      by (simp add: principal_axes_def list_all_length)
    have meq: "map (\<lambda>row. row ! k) ?scores =
          map (\<lambda>row. \<Sum>a\<leftarrow>[0..<length (components p ! k)]. row ! a * components p ! k ! a)
            (vals X)"
      using k by (simp add: len o_def)
    show ?thesis by (simp only: meq score_variance [OF pa rows])
  qed
  from wf have lev: "length (explained_variance p) = ?K" by (simp add: wf_pca_def)
  have "map (\<lambda>k. sample_variance (map (\<lambda>row. row ! k) ?scores)) [0..<?K] = explained_variance p"
    by (intro nth_equalityI) (simp_all add: lev var del: map_map)
  with S show ?thesis by (intro exI [of _ ?S]) (simp del: map_map)
qed

text \<open>
  The matrix \<open>X_rot\<close> with its decomposition: the scores are \<open>(2, 1), (-2, 1), (2, -1),
  (-2, -1), (0, 0)\<close>, and their column variances are the eigenvalues 4 and 1.
\<close>

theorem transformer_score_variance_witness:
  "\<exists>S. transformer acp_rot X_rot = Inr S \<and>
       columns S = [Str ''CP1'', Str ''CP2''] \<and>
       vals S = [[2, 1], [- 2, 1], [2, - 1], [- 2, - 1], [0, 0]] \<and>
       map (\<lambda>k. sample_variance (map (\<lambda>row. row ! k) (vals S))) [0..<2] = [4, 1]"
proof -
  have fa: "fitted_attrs acp_rot = Inr pca_rot" by (rule fitted_attrs_wf [OF wf_acp_rot])
  have cols: "length (columns X_rot) = n_features_in pca_rot"
    and rows: "2 \<le> length (vals X_rot)"
    and K: "length (components pca_rot) = 2"
    by (simp_all add: pca_rot_def X_rot_def)
  from transformer_score_variance [OF fa wf_pca_rot cols rows axes_rot]
  obtain S where S: "transformer acp_rot X_rot = Inr S"
    and c: "columns S = map cp_label [0..<length (components pca_rot)]"
    and v: "map (\<lambda>k. sample_variance (map (\<lambda>row. row ! k) (vals S)))
             [0..<length (components pca_rot)] = explained_variance pca_rot"
    by blast
  have tr: "transformer acp_rot X_rot =
        Inr \<lparr>index = map (\<lambda>i. Num (int i)) [0..<5], columns = map cp_label [0..<2],
             vals = [[2, 1], [- 2, 1], [2, - 1], [- 2, - 1], [0, 0]]\<rparr>"
    by (simp add: transformer_def fa transform_def pca_rot_def X_rot_def new_DataFrame_def
        upt_rec del: upt_Suc)
  from S [unfolded tr]
  have "S = \<lparr>index = map (\<lambda>i. Num (int i)) [0..<5], columns = map cp_label [0..<2],
             vals = [[2, 1], [- 2, 1], [2, - 1], [- 2, - 1], [0, 0]]\<rparr>" by simp
  then have vs: "vals S = [[2, 1], [- 2, 1], [2, - 1], [- 2, - 1], [0, 0]]" by simp
  from c have c': "columns S = [Str ''CP1'', Str ''CP2'']" by (simp only: K cp_labels_2)
  from v have v': "map (\<lambda>k. sample_variance (map (\<lambda>row. row ! k) (vals S))) [0..<2] = [4, 1]"
    by (simp only: K) (simp add: pca_rot_def)
  show ?thesis by (rule exI [of _ S]) (intro conjI S c' vs v')
qed

end
